theory Spec2Isabelle
  imports Complex_Main
begin

section \<open>Data model (types.ts)\<close>

text \<open>
  The playback scheduler of SageQuoteFlow is the React component \<open>App\<close> of
  \<open>src/App.tsx\<close>. Its state is the component's \<open>useState\<close> cells and \<open>useRef\<close>
  cells; its transitions are the click handlers, the continuation of the pending
  \<open>generateSpeech\<close> promise, the \<open>onended\<close> callback of the audio source and the
  \<open>setInterval\<close> callback. Each of them runs to completion on the single JavaScript
  thread; the state updates it makes are applied together in one render (React's
  automatic batching), and the playback-trigger effect is evaluated on that render. A
  snapshot is the state after such a render.
\<close>

datatype AppStatus = IDLE | PLAYING | PAUSED | ERROR

record Quote =
  id_q :: string
  text_q :: string
  author :: "string option"

record AppSettings =
  quoteCount :: nat
  manualQuotes :: "string list"
  frequencyHours :: int

text \<open>
  \<open>currentQuoteIndex\<close> is a JavaScript number. It is only ever \<open>0\<close> or the result of
  \<open>(i + 1) % totalQuotes\<close>, which is a natural number or, when \<open>totalQuotes\<close> is \<open>0\<close>,
  \<open>NaN\<close>: \<open>None\<close> stands for \<open>NaN\<close>. \<open>lastError\<close> is an optional string, \<open>None\<close> for
  \<open>undefined\<close>. Times are integral numbers of seconds or milliseconds, far below
  \<open>2 ^ 53\<close>, where JavaScript's arithmetic on them is exact.
\<close>

record PlaybackState =
  currentQuoteIndex :: "nat option"
  isAudioPlaying :: bool
  timeRemainingInInterval :: int
  totalQuotes :: nat
  lastError :: "string option"

section \<open>JavaScript primitives used by the component\<close>

text \<open>
  \<open>String.prototype.trim\<close> on the code units a \<open>char\<close> can hold: tab, line feed,
  vertical tab, form feed, carriage return, space and no-break space.
\<close>

definition isWhiteSpace :: "char \<Rightarrow> bool" where
  "isWhiteSpace c =
     (c = CHR 0x09 \<or> c = CHR 0x0A \<or> c = CHR 0x0B \<or> c = CHR 0x0C \<or> c = CHR 0x0D
      \<or> c = CHR 0x20 \<or> c = CHR 0xA0)"

definition trim :: "string \<Rightarrow> string" where
  "trim s = rev (dropWhile isWhiteSpace (rev (dropWhile isWhiteSpace s)))"

text \<open>\<open>String.prototype.includes\<close>: the pattern occurs at some position.\<close>

fun includes_str :: "string \<Rightarrow> string \<Rightarrow> bool" where
  "includes_str [] p = (p = [])"
| "includes_str (c # cs) p = (take (length p) (c # cs) = p \<or> includes_str cs p)"

text \<open>Truthiness of an optional string: \<open>undefined\<close> and \<open>''\<close> are falsy.\<close>

fun truthy :: "string option \<Rightarrow> bool" where
  "truthy None = False"
| "truthy (Some m) = (m \<noteq> [])"

text \<open>The decimal rendering of an array index, for the template \<open>`q-${i}`\<close>.\<close>

fun decimal :: "nat \<Rightarrow> string" where
  "decimal n =
     (if n < 10 then [char_of (48 + n)]
      else decimal (n div 10) @ [char_of (48 + n mod 10)])"

declare decimal.simps [simp del]

text \<open>\<open>a % b\<close> on natural numbers: \<open>NaN\<close> when \<open>b\<close> is \<open>0\<close>.\<close>

definition js_rem :: "nat \<Rightarrow> nat \<Rightarrow> nat option" where
  "js_rem a b = (if b = 0 then None else Some (a mod b))"

text \<open>\<open>(prev.currentQuoteIndex + 1) % prev.totalQuotes\<close>; \<open>NaN\<close> stays \<open>NaN\<close>.\<close>

definition nextIndex :: "nat option \<Rightarrow> nat \<Rightarrow> nat option" where
  "nextIndex idx n = (case idx of None \<Rightarrow> None | Some i \<Rightarrow> js_rem (i + 1) n)"

text \<open>\<open>quotes[i]\<close>: \<open>undefined\<close> out of range and at \<open>NaN\<close>.\<close>

definition quoteAt :: "Quote list \<Rightarrow> nat option \<Rightarrow> Quote option" where
  "quoteAt qs idx =
     (case idx of None \<Rightarrow> None
      | Some i \<Rightarrow> if i < length qs then Some (qs ! i) else None)"

text \<open>\<open>Math.max(0, Math.ceil(remainingMs / 1000))\<close> on an integral \<open>remainingMs\<close>.\<close>

definition ceilSeconds :: "int \<Rightarrow> int" where
  "ceilSeconds ms = - ((- ms) div 1000)"

definition remainingSecondsOf :: "int \<Rightarrow> int \<Rightarrow> int" where
  "remainingSecondsOf deadline now = max 0 (ceilSeconds (deadline - now))"

section \<open>The speech service (generateSpeech)\<close>

text \<open>
  \<open>generateSpeech\<close> either resolves with an audio buffer or rejects. Its \<open>catch\<close> block
  replaces any error whose message includes \<open>'API key'\<close> by
  \<open>Error("Invalid or missing API Key.")\<close> and rethrows every other error unchanged.
  An error is represented by its \<open>message\<close> property, \<open>None\<close> when it has none.
\<close>

definition generateSpeech_rethrow :: "string option \<Rightarrow> string option" where
  "generateSpeech_rethrow err =
     (case err of
        None \<Rightarrow> None
      | Some m \<Rightarrow> if includes_str m ''API key'' then Some ''Invalid or missing API Key.''
                  else Some m)"

text \<open>\<open>error.message || "Failed to generate audio"\<close> in \<open>playCurrentQuote\<close>.\<close>

definition errorText :: "string option \<Rightarrow> string" where
  "errorText err = (if truthy err then the err else ''Failed to generate audio'')"

section \<open>Component state\<close>

text \<open>
  A pending \<open>generateSpeech\<close> call remembers the text that was sent and the
  \<open>frequencyHours\<close> its continuation closes over (through \<open>scheduleNextPlayback\<close>);
  an audio source that has been started carries the same captured value in its
  \<open>onended\<close> handler.
\<close>

record SpeechCall =
  sentText :: string
  capturedHours :: int

record App =
  status :: AppStatus
  settings :: AppSettings
  quotes :: "Quote list"
  playbackState :: PlaybackState
  isBuffering :: bool
  audioSourceRef :: "nat option"
  intervalTimerRef :: "nat option"
  nextPlayTimeRef :: int
  isPausedRef :: bool
  ctxSuspended :: bool
  inFlight :: "SpeechCall list"
  sounding :: "(nat \<times> int) list"
  timers :: "nat list"
  fresh :: nat
  speechRequests :: "string list"

text \<open>
  The first nine fields are the component's own cells, with the names of the source.
  The others are the collaborators it talks to:
  \<^item> \<open>ctxSuspended\<close>: whether the shared audio context is suspended;
  \<^item> \<open>inFlight\<close>: the \<open>generateSpeech\<close> promises that have not settled yet;
  \<^item> \<open>sounding\<close>: the audio sources that were started and have neither ended nor been
    stopped, each with the \<open>frequencyHours\<close> its \<open>onended\<close> handler closes over;
  \<^item> \<open>timers\<close>: the interval timers that were set and not cleared;
  \<^item> \<open>fresh\<close>: the next handle the platform hands out (handles are positive, so a
    stored handle is truthy);
  \<^item> \<open>speechRequests\<close>: every text passed to \<open>generateSpeech\<close> so far, in order.

  The audio context, the sources and the timers belong to the browser. They behave as
  the specification's contracts say: \<open>suspend\<close> and \<open>resume\<close> switch the context,
  \<open>getAudioContext\<close> returns the one shared context without switching it, a source
  reports its end once and only when it was not stopped, and a cleared timer does not
  fire. A source may end and a speech call may settle at any moment after it was
  started, whatever the component does in between.
\<close>

definition initialApp :: App where
  "initialApp =
     \<lparr> status = IDLE,
       settings = \<lparr> quoteCount = 1, manualQuotes = [''''], frequencyHours = 1 \<rparr>,
       quotes = [],
       playbackState =
         \<lparr> currentQuoteIndex = Some 0, isAudioPlaying = False,
           timeRemainingInInterval = 0, totalQuotes = 0, lastError = None \<rparr>,
       isBuffering = False,
       audioSourceRef = None,
       intervalTimerRef = None,
       nextPlayTimeRef = 0,
       isPausedRef = False,
       ctxSuspended = False,
       inFlight = [],
       sounding = [],
       timers = [],
       fresh = 1,
       speechRequests = [] \<rparr>"

section \<open>Settings form (components/SettingsForm.tsx)\<close>

text \<open>
  The effect that keeps \<open>manualQuotes.length\<close> equal to \<open>quoteCount\<close>: missing slots are
  filled with empty strings, surplus ones are cut off.
\<close>

definition syncManualQuotes :: "AppSettings \<Rightarrow> AppSettings" where
  "syncManualQuotes st =
     (if length (manualQuotes st) \<noteq> quoteCount st then
        (if length (manualQuotes st) < quoteCount st
         then st\<lparr>manualQuotes :=
                manualQuotes st @ replicate (quoteCount st - length (manualQuotes st)) ''''\<rparr>
         else st\<lparr>manualQuotes := take (quoteCount st) (manualQuotes st)\<rparr>)
      else st)"

definition updateCount :: "nat \<Rightarrow> AppSettings \<Rightarrow> AppSettings" where
  "updateCount newCount st = syncManualQuotes (st\<lparr>quoteCount := newCount\<rparr>)"

definition handleQuoteChange :: "nat \<Rightarrow> string \<Rightarrow> AppSettings \<Rightarrow> AppSettings" where
  "handleQuoteChange index v st = st\<lparr>manualQuotes := (manualQuotes st)[index := v]\<rparr>"

definition handleFrequencyChange :: "int \<Rightarrow> AppSettings \<Rightarrow> AppSettings" where
  "handleFrequencyChange h st = st\<lparr>frequencyHours := h\<rparr>"

section \<open>Handlers of App.tsx\<close>

definition validQuotes :: "App \<Rightarrow> string list" where
  "validQuotes s = filter (\<lambda>q. trim q \<noteq> []) (manualQuotes (settings s))"

definition newQuotes :: "string list \<Rightarrow> Quote list" where
  "newQuotes vs =
     map (\<lambda>(i, t). \<lparr> id_q = ''q-'' @ decimal i, text_q = t, author = None \<rparr>)
       (enumerate 0 vs)"

definition handleStart :: "App \<Rightarrow> App" where
  "handleStart s =
     (if validQuotes s = [] then s
      else s\<lparr> quotes := newQuotes (validQuotes s),
              playbackState :=
                \<lparr> currentQuoteIndex = Some 0, isAudioPlaying = False,
                  timeRemainingInInterval = 0,
                  totalQuotes = length (newQuotes (validQuotes s)),
                  lastError = None \<rparr>,
              status := PLAYING,
              isPausedRef := False \<rparr>)"

definition stopAll :: "App \<Rightarrow> App" where
  "stopAll s =
     s\<lparr> sounding :=
          (case audioSourceRef s of
             None \<Rightarrow> sounding s
           | Some h \<Rightarrow> filter (\<lambda>p. fst p \<noteq> h) (sounding s)),
        audioSourceRef := None,
        timers :=
          (case intervalTimerRef s of
             None \<Rightarrow> timers s
           | Some t \<Rightarrow> removeAll t (timers s)),
        intervalTimerRef := None,
        isBuffering := False \<rparr>"

definition handleReset :: "App \<Rightarrow> App" where
  "handleReset s = (stopAll s)\<lparr> status := IDLE, quotes := [] \<rparr>"

definition handlePauseResume :: "App \<Rightarrow> App" where
  "handlePauseResume s =
     (if status s = PLAYING \<or> status s = PAUSED then
        (if \<not> isPausedRef s then
           s\<lparr> isPausedRef := True, status := PAUSED, ctxSuspended := True \<rparr>
         else
           s\<lparr> isPausedRef := False, status := PLAYING, ctxSuspended := False,
              playbackState :=
                (if truthy (lastError (playbackState s))
                 then (playbackState s)\<lparr>lastError := None\<rparr>
                 else playbackState s) \<rparr>)
      else s)"

text \<open>\<open>playCurrentQuote\<close> up to its \<open>await\<close>.\<close>

definition playCurrentQuote :: "App \<Rightarrow> App" where
  "playCurrentQuote s =
     (if isPausedRef s then s
      else case quoteAt (quotes s) (currentQuoteIndex (playbackState s)) of
        None \<Rightarrow> s
      | Some q \<Rightarrow>
          s\<lparr> isBuffering := True,
             playbackState := (playbackState s)\<lparr>lastError := None\<rparr>,
             inFlight := inFlight s @
               [\<lparr> sentText = text_q q, capturedHours = frequencyHours (settings s) \<rparr>],
             speechRequests := speechRequests s @ [text_q q] \<rparr>)"

text \<open>
  The continuation of \<open>playCurrentQuote\<close> after \<open>generateSpeech\<close> has resolved, for the
  pending call \<open>c\<close> (already taken out of \<open>inFlight\<close>).
\<close>

definition speechResolved :: "SpeechCall \<Rightarrow> App \<Rightarrow> App" where
  "speechResolved c s =
     (if isPausedRef s then s\<lparr> isBuffering := False \<rparr>
      else
        s\<lparr> audioSourceRef := Some (fresh s),
           sounding := sounding s @ [(fresh s, capturedHours c)],
           fresh := fresh s + 1,
           playbackState := (playbackState s)\<lparr>isAudioPlaying := True\<rparr>,
           isBuffering := False \<rparr>)"

text \<open>The \<open>catch\<close> block of \<open>playCurrentQuote\<close>, for the error that was thrown.\<close>

definition speechRejected :: "string option \<Rightarrow> App \<Rightarrow> App" where
  "speechRejected err s =
     s\<lparr> isBuffering := False,
        playbackState := (playbackState s)\<lparr>lastError := Some (errorText err)\<rparr>,
        isPausedRef := True,
        status := PAUSED \<rparr>"

text \<open>
  \<open>scheduleNextPlayback\<close>, with the \<open>frequencyHours\<close> it closes over and the value of
  \<open>Date.now()\<close>.
\<close>

definition scheduleNextPlayback :: "int \<Rightarrow> int \<Rightarrow> App \<Rightarrow> App" where
  "scheduleNextPlayback hours now s =
     s\<lparr> nextPlayTimeRef := now + hours * 3600 * 1000,
        playbackState :=
          (playbackState s)\<lparr>timeRemainingInInterval := (hours * 3600 * 1000) div 1000\<rparr>,
        timers :=
          (case intervalTimerRef s of
             None \<Rightarrow> timers s
           | Some t \<Rightarrow> removeAll t (timers s)) @ [fresh s],
        intervalTimerRef := Some (fresh s),
        fresh := fresh s + 1 \<rparr>"

text \<open>The \<open>onended\<close> handler of a source started by \<open>playCurrentQuote\<close>.\<close>

definition sourceEnded :: "int \<Rightarrow> int \<Rightarrow> App \<Rightarrow> App" where
  "sourceEnded hours now s =
     scheduleNextPlayback hours now
       (s\<lparr> isBuffering := False,
           playbackState := (playbackState s)\<lparr>isAudioPlaying := False\<rparr> \<rparr>)"

text \<open>The interval callback, with the value of \<open>Date.now()\<close>.\<close>

definition timerFired :: "int \<Rightarrow> App \<Rightarrow> App" where
  "timerFired now s =
     (if isPausedRef s then s\<lparr> nextPlayTimeRef := nextPlayTimeRef s + 1000 \<rparr>
      else
        (let remainingSeconds = remainingSecondsOf (nextPlayTimeRef s) now;
             p1 = (playbackState s)\<lparr>timeRemainingInInterval := remainingSeconds\<rparr>
         in if remainingSeconds \<le> 0 then
              s\<lparr> timers :=
                   (case intervalTimerRef s of
                      None \<Rightarrow> timers s
                    | Some t \<Rightarrow> removeAll t (timers s)),
                 playbackState :=
                   p1\<lparr> currentQuoteIndex := nextIndex (currentQuoteIndex p1) (totalQuotes p1),
                       timeRemainingInInterval := 0 \<rparr> \<rparr>
            else s\<lparr> playbackState := p1 \<rparr>))"

text \<open>
  The playback-trigger effect. React runs it again when one of its dependencies has
  changed. Its condition reads state that is among the dependencies, and a call of
  \<open>playCurrentQuote\<close> either sets \<open>isBuffering\<close>, which falsifies the condition, or
  returns at one of its two guards without writing anything; so the effect is evaluated
  here once after every callback.
\<close>

definition triggerCondition :: "App \<Rightarrow> bool" where
  "triggerCondition s =
     (status s = PLAYING
      \<and> \<not> isAudioPlaying (playbackState s)
      \<and> timeRemainingInInterval (playbackState s) = 0
      \<and> \<not> isBuffering s
      \<and> \<not> truthy (lastError (playbackState s)))"

definition playbackEffect :: "App \<Rightarrow> App" where
  "playbackEffect s = (if triggerCondition s then playCurrentQuote s else s)"

section \<open>Events\<close>

text \<open>
  What can happen to the component: the controls of the settings form, which is
  rendered while the status is \<open>IDLE\<close> (the slider yields \<open>1\<close> to \<open>5\<close>; the start
  button is taken to be pressable whatever the quotes are); the two buttons of the
  player, which is rendered otherwise; a pending speech call settling (named by its
  position in \<open>inFlight\<close>); a sounding source ending; an active timer firing. The
  last two carry the value of \<open>Date.now()\<close>.
\<close>

datatype event =
    QuoteCountDec
  | QuoteCountInc
  | QuoteChange nat string
  | FrequencyChange int
  | OnStart
  | OnPauseResume
  | OnReset
  | SpeechResolved nat
  | SpeechRejected nat "string option"
  | SourceEnded nat int
  | TimerFired nat int

fun enabled :: "App \<Rightarrow> event \<Rightarrow> bool" where
  "enabled s QuoteCountDec = (status s = IDLE)"
| "enabled s QuoteCountInc = (status s = IDLE)"
| "enabled s (QuoteChange i v) = (status s = IDLE \<and> i < length (manualQuotes (settings s)))"
| "enabled s (FrequencyChange h) = (status s = IDLE \<and> 1 \<le> h \<and> h \<le> 5)"
| "enabled s OnStart = (status s = IDLE)"
| "enabled s OnPauseResume = (status s \<noteq> IDLE)"
| "enabled s OnReset = (status s \<noteq> IDLE)"
| "enabled s (SpeechResolved k) = (k < length (inFlight s))"
| "enabled s (SpeechRejected k err) = (k < length (inFlight s))"
| "enabled s (SourceEnded h now) = (h \<in> fst ` set (sounding s))"
| "enabled s (TimerFired t now) = (t \<in> set (timers s))"

definition dropCall :: "nat \<Rightarrow> App \<Rightarrow> App" where
  "dropCall k s = s\<lparr> inFlight := take k (inFlight s) @ drop (Suc k) (inFlight s) \<rparr>"

definition hoursOf :: "nat \<Rightarrow> App \<Rightarrow> int" where
  "hoursOf h s = snd (hd (filter (\<lambda>p. fst p = h) (sounding s)))"

fun handler :: "event \<Rightarrow> App \<Rightarrow> App" where
  "handler QuoteCountDec s =
     s\<lparr> settings := updateCount (max 1 (quoteCount (settings s) - 1)) (settings s) \<rparr>"
| "handler QuoteCountInc s =
     s\<lparr> settings := updateCount (min 20 (quoteCount (settings s) + 1)) (settings s) \<rparr>"
| "handler (QuoteChange i v) s = s\<lparr> settings := handleQuoteChange i v (settings s) \<rparr>"
| "handler (FrequencyChange h) s = s\<lparr> settings := handleFrequencyChange h (settings s) \<rparr>"
| "handler OnStart s = handleStart s"
| "handler OnPauseResume s = handlePauseResume s"
| "handler OnReset s = handleReset s"
| "handler (SpeechResolved k) s = speechResolved (inFlight s ! k) (dropCall k s)"
| "handler (SpeechRejected k err) s = speechRejected (generateSpeech_rethrow err) (dropCall k s)"
| "handler (SourceEnded h now) s =
     sourceEnded (hoursOf h s) now (s\<lparr> sounding := filter (\<lambda>p. fst p \<noteq> h) (sounding s) \<rparr>)"
| "handler (TimerFired t now) s = timerFired now s"

text \<open>One callback and the render that follows it.\<close>

definition dispatch :: "event \<Rightarrow> App \<Rightarrow> App" where
  "dispatch e s = playbackEffect (handler e s)"

definition fire :: "event \<Rightarrow> App \<Rightarrow> App" where
  "fire e s = (if enabled s e then dispatch e s else s)"

fun run :: "event list \<Rightarrow> App \<Rightarrow> App" where
  "run [] s = s"
| "run (e # es) s = run es (fire e s)"

section \<open>Invariants of the reachable states\<close>

text \<open>
  The pause flag is a ref, the status a state cell; every handler that writes one writes
  the other, except \<open>handleReset\<close>, which leaves the flag alone. The status \<open>ERROR\<close> is
  never assigned.
\<close>

definition flagAgrees :: "App \<Rightarrow> bool" where
  "flagAgrees s =
     ((status s = PLAYING \<longrightarrow> \<not> isPausedRef s) \<and> (status s = PAUSED \<longrightarrow> isPausedRef s)
      \<and> status s \<noteq> ERROR)"


text \<open>Speech is being fetched or audio is being played, never both.\<close>

definition oneAtATime :: "App \<Rightarrow> bool" where
  "oneAtATime s = (\<not> (isBuffering s \<and> isAudioPlaying (playbackState s)))"

text \<open>
  The index points into the quote list. \<open>totalQuotes\<close> is what the index is reduced by; it
  is the length of the list whenever there is a list.
\<close>

definition indexInRange :: "App \<Rightarrow> bool" where
  "indexInRange s =
     ((quotes s \<noteq> [] \<longrightarrow> totalQuotes (playbackState s) = length (quotes s))
      \<and> (0 < totalQuotes (playbackState s) \<longrightarrow>
           (\<exists>i < totalQuotes (playbackState s). currentQuoteIndex (playbackState s) = Some i)))"

text \<open>
  What can happen on its own while the session is paused: a tick of the timer, or a
  pending speech call settling.
\<close>

fun background :: "event \<Rightarrow> bool" where
  "background (TimerFired t now) = True"
| "background (SpeechResolved k) = True"
| "background (SpeechRejected k err) = True"
| "background _ = False"

text \<open>Every active timer is the one \<open>intervalTimerRef\<close> holds.\<close>

definition timersTracked :: "App \<Rightarrow> bool" where
  "timersTracked s = (set (timers s) \<subseteq> set_option (intervalTimerRef s))"

text \<open>A trace is orderly when reset is only ever pressed while no speech call is pending.\<close>

fun orderly :: "event list \<Rightarrow> App \<Rightarrow> bool" where
  "orderly [] s = True"
| "orderly (e # es) s = ((if e = OnReset then inFlight s = [] else True) \<and> orderly es (fire e s))"

text \<open>The four phases of a session. Fetching: one speech call is pending.\<close>

definition phaseFetching :: "App \<Rightarrow> bool" where
  "phaseFetching s =
     (isBuffering s \<and> (\<exists>c. inFlight s = [c] \<and> 1 \<le> capturedHours c)
      \<and> sounding s = [] \<and> timers s = []
      \<and> \<not> isAudioPlaying (playbackState s)
      \<and> timeRemainingInInterval (playbackState s) = 0
      \<and> lastError (playbackState s) = None)"

text \<open>Sounding: the source held in \<open>audioSourceRef\<close> is playing.\<close>

definition phaseSounding :: "App \<Rightarrow> bool" where
  "phaseSounding s =
     (\<not> isBuffering s \<and> inFlight s = []
      \<and> (\<exists>h f. audioSourceRef s = Some h \<and> sounding s = [(h, f)] \<and> 1 \<le> f)
      \<and> timers s = []
      \<and> isAudioPlaying (playbackState s)
      \<and> timeRemainingInInterval (playbackState s) = 0
      \<and> lastError (playbackState s) = None)"

text \<open>Counting: the timer held in \<open>intervalTimerRef\<close> is ticking towards the next quote.\<close>

definition phaseCounting :: "App \<Rightarrow> bool" where
  "phaseCounting s =
     (\<not> isBuffering s \<and> inFlight s = [] \<and> sounding s = []
      \<and> (\<exists>t. intervalTimerRef s = Some t \<and> timers s = [t])
      \<and> \<not> isAudioPlaying (playbackState s)
      \<and> 0 < timeRemainingInInterval (playbackState s)
      \<and> lastError (playbackState s) = None)"

text \<open>Held: paused with nothing pending, sounding or ticking, and the countdown at \<open>0\<close>.\<close>

definition phaseHeld :: "App \<Rightarrow> bool" where
  "phaseHeld s =
     (\<not> isBuffering s \<and> inFlight s = [] \<and> sounding s = [] \<and> timers s = []
      \<and> \<not> isAudioPlaying (playbackState s)
      \<and> timeRemainingInInterval (playbackState s) = 0
      \<and> status s = PAUSED)"

text \<open>Without a session nothing is pending; with a session it is in one of the four phases.\<close>

definition wellPhased :: "App \<Rightarrow> bool" where
  "wellPhased s =
     (1 \<le> frequencyHours (settings s)
      \<and> (if status s = IDLE
          then inFlight s = [] \<and> sounding s = [] \<and> timers s = [] \<and> \<not> isBuffering s
          else quotes s \<noteq> []
               \<and> (phaseFetching s \<or> phaseSounding s \<or> phaseCounting s \<or> phaseHeld s)))"

text \<open>The phases other than the held one do not look at the status or the pause flag.\<close>

definition running :: "App \<Rightarrow> bool" where
  "running s = (phaseFetching s \<or> phaseSounding s \<or> phaseCounting s)"

section \<open>A sample session\<close>

text \<open>
  Two quotes, one hour apart: the first is fetched and played, its hour elapses, the
  second is fetched and played, and its countdown has just been armed (timer \<open>4\<close>,
  deadline \<open>7206000\<close>).
\<close>

definition sessionTrace :: "event list" where
  "sessionTrace =
     [QuoteCountInc, QuoteChange 0 ''one'', QuoteChange 1 ''two'', OnStart,
      SpeechResolved 0, SourceEnded 1 5000, TimerFired 2 3605000,
      SpeechResolved 0, SourceEnded 3 3606000]"

text \<open>A session whose only speech call was rejected with a message about the API key.\<close>

definition failedTrace :: "event list" where
  "failedTrace =
     [QuoteChange 0 ''Hello world'', OnStart,
      SpeechRejected 0 (Some ''Request had invalid API key'')]"

text \<open>A session paused while its first speech call is pending.\<close>

definition pausedWhileFetchingTrace :: "event list" where
  "pausedWhileFetchingTrace = [QuoteChange 0 ''Hello world'', OnStart, OnPauseResume]"

text \<open>The same session resumed again before the call has settled.\<close>

definition toggledTwiceWhileFetchingTrace :: "event list" where
  "toggledTwiceWhileFetchingTrace =
     [QuoteChange 0 ''Hello world'', OnStart, OnPauseResume, OnPauseResume]"

text \<open>A session reset after its speech call was rejected.\<close>

definition resetAfterFailureTrace :: "event list" where
  "resetAfterFailureTrace =
     [QuoteChange 0 ''Hello world'', OnStart, SpeechRejected 0 (Some ''boom''), OnReset]"

text \<open>A session reset while its first speech call is pending.\<close>

definition resetWhileFetchingTrace :: "event list" where
  "resetWhileFetchingTrace = [QuoteChange 0 ''Hello world'', OnStart, OnReset]"

text \<open>The same, and then the pending call is rejected.\<close>

definition staleFailureTrace :: "event list" where
  "staleFailureTrace =
     [QuoteChange 0 ''Hello world'', OnStart, OnReset, SpeechRejected 0 (Some ''boom'')]"

text \<open>
  Two quotes; the session is reset while its first call is pending and started again;
  the old call resolves and the new one is rejected.
\<close>

definition staleAudioTrace :: "event list" where
  "staleAudioTrace =
     [QuoteCountInc, QuoteChange 0 ''one'', QuoteChange 1 ''two'', OnStart, OnReset, OnStart,
      SpeechResolved 0, SpeechRejected 0 (Some ''boom'')]"

named_theorems app_defs

section \<open>Basic facts\<close>

lemmas [app_defs] = initialApp_def fire_def dispatch_def playbackEffect_def triggerCondition_def
  playCurrentQuote_def handleStart_def handleReset_def stopAll_def handlePauseResume_def
  speechResolved_def speechRejected_def generateSpeech_rethrow_def errorText_def dropCall_def
  hoursOf_def sourceEnded_def scheduleNextPlayback_def timerFired_def remainingSecondsOf_def
  ceilSeconds_def nextIndex_def js_rem_def quoteAt_def validQuotes_def newQuotes_def trim_def
  isWhiteSpace_def updateCount_def syncManualQuotes_def handleQuoteChange_def
  handleFrequencyChange_def Let_def enumerate_eq_zip decimal.simps sessionTrace_def

lemma run_append: "run (es @ es') s = run es' (run es s)"
  by (induction es arbitrary: s) simp_all

lemma run_invariant:
  assumes "P s" and step: "\<And>s e. P s \<Longrightarrow> enabled s e \<Longrightarrow> P (dispatch e s)"
  shows "P (run es s)"
  using assms(1)
proof (induction es arbitrary: s)
  case Nil
  then show ?case by simp
next
  case (Cons e es)
  have "P (fire e s)" using Cons.prems step by (simp add: fire_def)
  then show ?case using Cons.IH by simp
qed

text \<open>The effect only ever starts a speech call: it writes nothing else.\<close>

lemma playbackEffect_frame:
  "status (playbackEffect s) = status s"
  "isPausedRef (playbackEffect s) = isPausedRef s"
  "quotes (playbackEffect s) = quotes s"
  "settings (playbackEffect s) = settings s"
  "timers (playbackEffect s) = timers s"
  "sounding (playbackEffect s) = sounding s"
  "audioSourceRef (playbackEffect s) = audioSourceRef s"
  "intervalTimerRef (playbackEffect s) = intervalTimerRef s"
  "nextPlayTimeRef (playbackEffect s) = nextPlayTimeRef s"
  "ctxSuspended (playbackEffect s) = ctxSuspended s"
  "fresh (playbackEffect s) = fresh s"
  "currentQuoteIndex (playbackState (playbackEffect s)) = currentQuoteIndex (playbackState s)"
  "isAudioPlaying (playbackState (playbackEffect s)) = isAudioPlaying (playbackState s)"
  "timeRemainingInInterval (playbackState (playbackEffect s)) =
     timeRemainingInInterval (playbackState s)"
  "totalQuotes (playbackState (playbackEffect s)) = totalQuotes (playbackState s)"
  by (simp_all add: playbackEffect_def playCurrentQuote_def split: option.splits)

lemma playbackEffect_idle: "status s \<noteq> PLAYING \<Longrightarrow> playbackEffect s = s"
  by (simp add: playbackEffect_def triggerCondition_def)

lemma flagAgrees_dispatch: "flagAgrees s \<Longrightarrow> enabled s e \<Longrightarrow> flagAgrees (dispatch e s)"
  by (cases e)
    (auto simp: flagAgrees_def dispatch_def playbackEffect_frame handleStart_def handleReset_def
      stopAll_def handlePauseResume_def speechResolved_def speechRejected_def dropCall_def
      sourceEnded_def scheduleNextPlayback_def timerFired_def Let_def)

lemma flagAgrees_run: "flagAgrees (run es initialApp)"
proof (rule run_invariant)
  show "flagAgrees initialApp" by (simp add: flagAgrees_def initialApp_def)
qed (rule flagAgrees_dispatch)

lemma length_newQuotes: "length (newQuotes vs) = length vs"
  by (simp add: newQuotes_def)

lemma ceilSeconds_ceiling: "ceilSeconds ms = \<lceil>real_of_int ms / 1000\<rceil>"
  using ceiling_divide_eq_div [of ms 1000, where ?'a = real] by (simp add: ceilSeconds_def)

lemma playbackEffect_oneAtATime:
  "\<not> (isBuffering s \<and> isAudioPlaying (playbackState s)) \<Longrightarrow>
   \<not> (isBuffering (playbackEffect s) \<and> isAudioPlaying (playbackState (playbackEffect s)))"
  by (auto simp: playbackEffect_def triggerCondition_def playCurrentQuote_def split: option.splits)

lemma oneAtATime_dispatch: "oneAtATime s \<Longrightarrow> enabled s e \<Longrightarrow> oneAtATime (dispatch e s)"
  unfolding oneAtATime_def dispatch_def
  by (rule playbackEffect_oneAtATime, cases e)
    (auto simp: handleStart_def handleReset_def
      stopAll_def handlePauseResume_def speechResolved_def speechRejected_def dropCall_def
      sourceEnded_def scheduleNextPlayback_def timerFired_def Let_def updateCount_def handleQuoteChange_def handleFrequencyChange_def)

lemma speechResolved_plays:
  assumes "\<not> isPausedRef s" "k < length (inFlight s)"
  shows "isAudioPlaying (playbackState (fire (SpeechResolved k) s)) \<and> \<not> isBuffering (fire (SpeechResolved k) s)"
  using assms
  by (simp add: fire_def dispatch_def speechResolved_def dropCall_def playbackEffect_def triggerCondition_def)

lemma indexInRange_dispatch: "indexInRange s \<Longrightarrow> enabled s e \<Longrightarrow> indexInRange (dispatch e s)"
  by (cases e)
    (auto simp: indexInRange_def dispatch_def playbackEffect_frame handleStart_def handleReset_def
      stopAll_def handlePauseResume_def speechResolved_def speechRejected_def dropCall_def
      sourceEnded_def scheduleNextPlayback_def timerFired_def Let_def updateCount_def handleQuoteChange_def handleFrequencyChange_def
      length_newQuotes nextIndex_def js_rem_def)

lemma indexInRange_run: "indexInRange (run es initialApp)"
proof (rule run_invariant)
  show "indexInRange initialApp" by (simp add: indexInRange_def initialApp_def)
qed (rule indexInRange_dispatch)

lemma handleStart_index:
  "validQuotes u \<noteq> [] \<Longrightarrow> currentQuoteIndex (playbackState (handleStart u)) = Some 0"
  by (simp add: handleStart_def)

lemma timerFired_expiry_index:
  assumes "\<not> isPausedRef s" "t \<in> set (timers s)" "remainingSecondsOf (nextPlayTimeRef s) now = 0"
  shows "currentQuoteIndex (playbackState (fire (TimerFired t now) s))
         = nextIndex (currentQuoteIndex (playbackState s)) (totalQuotes (playbackState s))"
  using assms by (simp add: fire_def dispatch_def playbackEffect_frame timerFired_def Let_def)

lemma timerFired_remaining:
  assumes "\<not> isPausedRef s" "t \<in> set (timers s)"
  shows "timeRemainingInInterval (playbackState (fire (TimerFired t now) s))
         = remainingSecondsOf (nextPlayTimeRef s) now"
  using assms
  by (simp add: fire_def dispatch_def playbackEffect_frame timerFired_def Let_def
      remainingSecondsOf_def)

lemma paused_handler:
  assumes "status x = PAUSED" "e \<noteq> OnPauseResume" "e \<noteq> OnReset" "enabled x e"
  shows "status (handler e x) = PAUSED \<and> speechRequests (handler e x) = speechRequests x"
  using assms
  by (cases e)
    (auto simp: speechResolved_def speechRejected_def dropCall_def
      sourceEnded_def scheduleNextPlayback_def timerFired_def Let_def)

lemma paused_fire:
  assumes "status x = PAUSED" "e \<noteq> OnPauseResume" "e \<noteq> OnReset"
  shows "status (fire e x) = PAUSED \<and> speechRequests (fire e x) = speechRequests x"
proof (cases "enabled x e")
  case True
  from paused_handler [OF assms True] show ?thesis
    using True by (simp add: fire_def dispatch_def playbackEffect_idle)
next
  case False
  then show ?thesis using assms(1) by (simp add: fire_def)
qed

lemma paused_run:
  assumes "status x = PAUSED" "OnPauseResume \<notin> set es" "OnReset \<notin> set es"
  shows "status (run es x) = PAUSED \<and> speechRequests (run es x) = speechRequests x"
  using assms
proof (induction es arbitrary: x)
  case Nil
  then show ?case by simp
next
  case (Cons e es)
  from Cons.prems have e: "e \<noteq> OnPauseResume" "e \<noteq> OnReset" by auto
  from paused_fire [OF Cons.prems(1) e] Cons.IH [of "fire e x"] Cons.prems(2,3)
  show ?case by simp
qed

lemma speechRejected_fire:
  assumes "k < length (inFlight s)"
  shows "fire (SpeechRejected k err) s = speechRejected (generateSpeech_rethrow err) (dropCall k s)"
  using assms by (simp add: fire_def dispatch_def playbackEffect_idle speechRejected_def)

lemma paused_tick:
  assumes "isPausedRef s" "status s \<noteq> PLAYING" "t \<in> set (timers s)"
  shows "fire (TimerFired t now) s = s\<lparr>nextPlayTimeRef := nextPlayTimeRef s + 1000\<rparr>"
  using assms by (simp add: fire_def dispatch_def timerFired_def playbackEffect_idle)

lemma paused_background_fire:
  assumes "status x = PAUSED" "isPausedRef x" "background e"
  shows "status (fire e x) = PAUSED \<and> isPausedRef (fire e x)
         \<and> timeRemainingInInterval (playbackState (fire e x))
             = timeRemainingInInterval (playbackState x)"
  using assms
  by (cases e)
    (auto simp: fire_def dispatch_def playbackEffect_frame speechResolved_def speechRejected_def
      dropCall_def timerFired_def)

lemma paused_background_run:
  assumes "status x = PAUSED" "isPausedRef x" "\<forall>e \<in> set bg. background e"
  shows "status (run bg x) = PAUSED
         \<and> timeRemainingInInterval (playbackState (run bg x))
             = timeRemainingInInterval (playbackState x)"
  using assms
proof (induction bg arbitrary: x)
  case Nil
  then show ?case by simp
next
  case (Cons e bg)
  from Cons.prems have "background e" by simp
  from paused_background_fire [OF Cons.prems(1,2) this] Cons.IH [of "fire e x"] Cons.prems(3)
  show ?case by simp
qed

section \<open>The phases of an orderly session\<close>

lemma removeAll_only: "set xs \<subseteq> {x} \<Longrightarrow> removeAll x xs = []"
  by (induction xs) auto

lemma timersTracked_dispatch: "timersTracked s \<Longrightarrow> enabled s e \<Longrightarrow> timersTracked (dispatch e s)"
  by (cases e)
    (auto simp: timersTracked_def dispatch_def playbackEffect_frame handleStart_def handleReset_def
      stopAll_def handlePauseResume_def speechResolved_def speechRejected_def dropCall_def
      sourceEnded_def scheduleNextPlayback_def timerFired_def Let_def removeAll_only
      split: option.splits)

lemma timersTracked_run: "timersTracked (run es initialApp)"
proof (rule run_invariant)
  show "timersTracked initialApp" by (simp add: timersTracked_def initialApp_def)
qed (rule timersTracked_dispatch)

lemma orderly_snoc:
  "orderly (es @ [e]) s = (orderly es s \<and> (e = OnReset \<longrightarrow> inFlight (run es s) = []))"
  by (induction es arbitrary: s) auto

lemmas phase_defs = phaseFetching_def phaseSounding_def phaseCounting_def phaseHeld_def

lemma quoteAt_newQuotes:
  "vs \<noteq> [] \<Longrightarrow> quoteAt (newQuotes vs) (Some 0) = Some (newQuotes vs ! 0)"
  by (simp add: quoteAt_def length_newQuotes)

lemma wp_settings:
  assumes "wellPhased s" "enabled s e"
    "e = QuoteCountDec \<or> e = QuoteCountInc \<or> (\<exists>i v. e = QuoteChange i v) \<or> (\<exists>h. e = FrequencyChange h)"
  shows "wellPhased (dispatch e s)"
  using assms
  by (auto simp: wellPhased_def dispatch_def playbackEffect_idle updateCount_def
      syncManualQuotes_def handleQuoteChange_def handleFrequencyChange_def)

lemma wp_start:
  assumes "wellPhased s" "enabled s OnStart"
  shows "wellPhased (dispatch OnStart s)"
proof (cases "validQuotes s = []")
  case True
  then show ?thesis using assms
    by (simp add: dispatch_def handleStart_def playbackEffect_idle)
next
  case False
  then have q: "newQuotes (validQuotes s) \<noteq> []"
    using length_newQuotes [of "validQuotes s"] by auto
  from False assms show ?thesis
    by (simp add: wellPhased_def dispatch_def handleStart_def playbackEffect_def
        triggerCondition_def playCurrentQuote_def quoteAt_newQuotes q phase_defs)
qed

lemma quoteAt_inRange:
  assumes "indexInRange s" "quotes s \<noteq> []"
  shows "\<exists>i. currentQuoteIndex (playbackState s) = Some i \<and> i < length (quotes s)
     \<and> quoteAt (quotes s) (currentQuoteIndex (playbackState s)) = Some (quotes s ! i)"
  using assms by (auto simp: indexInRange_def quoteAt_def)

text \<open>Once nothing is pending, sounding or counting and the countdown is at 0, a playing session fetches.\<close>

lemma effect_fetches:
  assumes "status s = PLAYING" "\<not> isPausedRef s" "indexInRange s" "quotes s \<noteq> []"
    "1 \<le> frequencyHours (settings s)"
    "\<not> isBuffering s" "inFlight s = []" "sounding s = []" "timers s = []"
    "\<not> isAudioPlaying (playbackState s)" "timeRemainingInInterval (playbackState s) = 0"
    "\<not> truthy (lastError (playbackState s))"
  shows "phaseFetching (playbackEffect s)"
proof -
  from quoteAt_inRange [OF assms(3,4)] obtain i where
    "quoteAt (quotes s) (currentQuoteIndex (playbackState s)) = Some (quotes s ! i)" by blast
  with assms show ?thesis
    by (simp add: playbackEffect_def triggerCondition_def playCurrentQuote_def phaseFetching_def)
qed

lemma running_cong:
  assumes "isBuffering s' = isBuffering s" "inFlight s' = inFlight s" "sounding s' = sounding s"
    "timers s' = timers s" "playbackState s' = playbackState s"
    "audioSourceRef s' = audioSourceRef s" "intervalTimerRef s' = intervalTimerRef s"
  shows "running s' = running s"
  using assms by (simp add: running_def phase_defs)

lemma running_no_error: "running s \<Longrightarrow> lastError (playbackState s) = None"
  by (auto simp: running_def phase_defs)

lemma running_no_trigger: "running s \<Longrightarrow> \<not> triggerCondition s"
  by (auto simp: running_def phase_defs triggerCondition_def)

lemma running_not_held: "running s \<Longrightarrow> phaseHeld s \<Longrightarrow> False"
  by (auto simp: running_def phase_defs)

lemma wellPhased_active:
  "status s \<noteq> IDLE \<Longrightarrow>
   wellPhased s = (1 \<le> frequencyHours (settings s) \<and> quotes s \<noteq> [] \<and> (running s \<or> phaseHeld s))"
  by (auto simp: wellPhased_def running_def)

lemma wp_pauseResume:
  assumes "wellPhased s" "flagAgrees s" "indexInRange s" "enabled s OnPauseResume"
  shows "wellPhased (dispatch OnPauseResume s)"
proof -
  from assms(4) have ni: "status s \<noteq> IDLE" by simp
  with assms(1) have q: "quotes s \<noteq> []" and f: "1 \<le> frequencyHours (settings s)"
    and ph: "running s \<or> phaseHeld s"
    by (simp_all add: wellPhased_active)
  show ?thesis
  proof (cases "isPausedRef s")
    case False
    with assms(2) ni have st: "status s = PLAYING"
      by (cases "status s") (simp_all add: flagAgrees_def)
    let ?h = "s\<lparr> isPausedRef := True, status := PAUSED, ctxSuspended := True \<rparr>"
    have h: "handlePauseResume s = ?h"
      using False st by (simp add: handlePauseResume_def)
    from ph st have "running s" by (auto simp: phaseHeld_def)
    moreover have "running ?h = running s" by (rule running_cong) simp_all
    ultimately have "running ?h" by simp
    then have "wellPhased ?h" using q f by (simp add: wellPhased_active)
    then show ?thesis by (simp add: dispatch_def h playbackEffect_idle)
  next
    case True
    with assms(2) ni have st: "status s = PAUSED"
      by (cases "status s") (simp_all add: flagAgrees_def)
    let ?h = "handlePauseResume s"
    have h: "?h = s\<lparr> isPausedRef := False, status := PLAYING, ctxSuspended := False,
              playbackState :=
                (if truthy (lastError (playbackState s))
                 then (playbackState s)\<lparr>lastError := None\<rparr>
                 else playbackState s) \<rparr>"
      using True st by (simp add: handlePauseResume_def)
    from ph show ?thesis
    proof
      assume "phaseHeld s"
      have "indexInRange ?h" using assms(3) by (auto simp: h indexInRange_def)
      then have "phaseFetching (playbackEffect ?h)"
        using \<open>phaseHeld s\<close> q f by (intro effect_fetches) (auto simp: h phaseHeld_def)
      then show ?thesis using q f
        by (simp add: dispatch_def wellPhased_active running_def playbackEffect_frame h)
    next
      assume r: "running s"
      then have h': "?h = s\<lparr> isPausedRef := False, status := PLAYING, ctxSuspended := False \<rparr>"
        by (simp add: h running_no_error)
      have "running ?h = running s" unfolding h' by (rule running_cong) simp_all
      with r have r': "running ?h" by simp
      then have e: "playbackEffect ?h = ?h"
        by (simp add: playbackEffect_def running_no_trigger)
      from r' have "wellPhased ?h" using q f by (simp add: wellPhased_active h')
      then show ?thesis by (simp add: dispatch_def e)
    qed
  qed
qed

lemma active_status:
  assumes "flagAgrees s" "status s \<noteq> IDLE"
  shows "status s = (if isPausedRef s then PAUSED else PLAYING)"
  using assms by (cases "status s") (simp_all add: flagAgrees_def)

lemma wp_reset:
  assumes "wellPhased s" "enabled s OnReset" "inFlight s = []"
  shows "wellPhased (dispatch OnReset s)"
proof -
  from assms(2) have ni: "status s \<noteq> IDLE" by simp
  with assms(1) have f: "1 \<le> frequencyHours (settings s)"
    and ph: "running s \<or> phaseHeld s"
    by (simp_all add: wellPhased_active)
  have d: "dispatch OnReset s = handleReset s"
    by (simp add: dispatch_def playbackEffect_idle handleReset_def)
  from ph assms(3) consider "phaseSounding s" | "phaseCounting s" | "phaseHeld s"
    by (auto simp: running_def phaseFetching_def)
  then show ?thesis
  proof cases
    case 1
    then show ?thesis using f
      by (auto simp: d wellPhased_def handleReset_def stopAll_def phaseSounding_def
          split: option.splits)
  next
    case 2
    then show ?thesis using f
      by (auto simp: d wellPhased_def handleReset_def stopAll_def phaseCounting_def
          split: option.splits)
  next
    case 3
    then show ?thesis using f
      by (auto simp: d wellPhased_def handleReset_def stopAll_def phaseHeld_def
          split: option.splits)
  qed
qed

lemma wp_speechResolved:
  assumes "wellPhased s" "flagAgrees s" "enabled s (SpeechResolved k)"
  shows "wellPhased (dispatch (SpeechResolved k) s)"
proof -
  from assms(3) have k: "k < length (inFlight s)" by simp
  with assms(1) have ni: "status s \<noteq> IDLE" by (auto simp: wellPhased_def)
  with assms(1) have q: "quotes s \<noteq> []" and f: "1 \<le> frequencyHours (settings s)"
    and ph: "running s \<or> phaseHeld s"
    by (simp_all add: wellPhased_active)
  from ph k have "phaseFetching s" by (auto simp: running_def phase_defs)
  then obtain c where c: "inFlight s = [c]" "1 \<le> capturedHours c" and rest: "isBuffering s"
    "sounding s = []" "timers s = []" "\<not> isAudioPlaying (playbackState s)"
    "timeRemainingInInterval (playbackState s) = 0" "lastError (playbackState s) = None"
    by (auto simp: phaseFetching_def)
  from c k have k0: "k = 0" by simp
  let ?h = "handler (SpeechResolved k) s"
  show ?thesis
  proof (cases "isPausedRef s")
    case True
    with active_status [OF assms(2) ni] have st: "status s = PAUSED" by simp
    have "phaseHeld ?h"
      using True st c rest by (simp add: k0 speechResolved_def dropCall_def phaseHeld_def)
    moreover have "status ?h = PAUSED" "quotes ?h = quotes s" "settings ?h = settings s"
      using True st by (simp_all add: speechResolved_def dropCall_def)
    ultimately show ?thesis using q f
      by (simp add: dispatch_def playbackEffect_idle wellPhased_active)
  next
    case False
    with active_status [OF assms(2) ni] have st: "status s = PLAYING" by simp
    have "phaseSounding ?h"
      using False st c rest by (simp add: k0 speechResolved_def dropCall_def phaseSounding_def)
    then have r: "running ?h" by (simp add: running_def)
    moreover have "status ?h = PLAYING" "quotes ?h = quotes s" "settings ?h = settings s"
      using False st by (simp_all add: speechResolved_def dropCall_def)
    ultimately show ?thesis using q f
      by (simp add: dispatch_def playbackEffect_def running_no_trigger wellPhased_active)
  qed
qed

lemma wp_speechRejected:
  assumes "wellPhased s" "enabled s (SpeechRejected k err)"
  shows "wellPhased (dispatch (SpeechRejected k err) s)"
proof -
  from assms(2) have k: "k < length (inFlight s)" by simp
  with assms(1) have ni: "status s \<noteq> IDLE" by (auto simp: wellPhased_def)
  with assms(1) have q: "quotes s \<noteq> []" and f: "1 \<le> frequencyHours (settings s)"
    and ph: "running s \<or> phaseHeld s"
    by (simp_all add: wellPhased_active)
  from ph k have "phaseFetching s" by (auto simp: running_def phase_defs)
  then obtain c where c: "inFlight s = [c]" and rest:
    "sounding s = []" "timers s = []" "\<not> isAudioPlaying (playbackState s)"
    "timeRemainingInInterval (playbackState s) = 0"
    by (auto simp: phaseFetching_def)
  from c k have k0: "k = 0" by simp
  let ?h = "handler (SpeechRejected k err) s"
  have "phaseHeld ?h"
    using c rest by (simp add: k0 speechRejected_def dropCall_def phaseHeld_def)
  moreover have "status ?h = PAUSED" "quotes ?h = quotes s" "settings ?h = settings s"
    by (simp_all add: speechRejected_def dropCall_def)
  ultimately show ?thesis using q f
    by (simp add: dispatch_def playbackEffect_idle wellPhased_active)
qed

lemma wp_sourceEnded:
  assumes "wellPhased s" "enabled s (SourceEnded h now)"
  shows "wellPhased (dispatch (SourceEnded h now) s)"
proof -
  from assms(2) have k: "h \<in> fst ` set (sounding s)" by simp
  with assms(1) have ni: "status s \<noteq> IDLE" by (auto simp: wellPhased_def)
  with assms(1) have q: "quotes s \<noteq> []" and f: "1 \<le> frequencyHours (settings s)"
    and ph: "running s \<or> phaseHeld s"
    by (simp_all add: wellPhased_active)
  from ph k have "phaseSounding s" by (auto simp: running_def phase_defs)
  then obtain h' g where c: "sounding s = [(h', g)]" "1 \<le> g" and rest: "inFlight s = []"
    "timers s = []" "lastError (playbackState s) = None"
    by (auto simp: phaseSounding_def)
  from c k have h: "h' = h" by simp
  let ?h = "handler (SourceEnded h now) s"
  have g: "hoursOf h s = g" by (simp add: hoursOf_def c h)
  have "0 < g * 3600" using c(2) by simp
  then have "phaseCounting ?h"
    using c rest
    by (simp add: h g sourceEnded_def scheduleNextPlayback_def phaseCounting_def
        split: option.splits)
  then have r: "running ?h" by (simp add: running_def)
  moreover have "status ?h = status s" "quotes ?h = quotes s" "settings ?h = settings s"
    by (simp_all add: sourceEnded_def scheduleNextPlayback_def)
  ultimately show ?thesis using q f ni
    by (simp add: dispatch_def playbackEffect_def running_no_trigger wellPhased_active)
qed

lemma wp_timerFired:
  assumes "wellPhased s" "flagAgrees s" "indexInRange s" "enabled s (TimerFired t now)"
  shows "wellPhased (dispatch (TimerFired t now) s)"
proof -
  from assms(4) have k: "t \<in> set (timers s)" by simp
  with assms(1) have ni: "status s \<noteq> IDLE" by (auto simp: wellPhased_def)
  with assms(1) have q: "quotes s \<noteq> []" and f: "1 \<le> frequencyHours (settings s)"
    and ph: "running s \<or> phaseHeld s"
    by (simp_all add: wellPhased_active)
  from ph k have pc: "phaseCounting s" by (auto simp: running_def phase_defs)
  then obtain t' where c: "intervalTimerRef s = Some t'" "timers s = [t']"
    and rest: "\<not> isBuffering s" "inFlight s = []" "sounding s = []"
    "\<not> isAudioPlaying (playbackState s)" "lastError (playbackState s) = None"
    by (auto simp: phaseCounting_def)
  let ?h = "handler (TimerFired t now) s"
  show ?thesis
  proof (cases "isPausedRef s")
    case True
    have "running ?h = running s"
      using True by (intro running_cong) (simp_all add: timerFired_def)
    with pc have r: "running ?h" by (simp add: running_def)
    moreover have "status ?h = status s" "quotes ?h = quotes s" "settings ?h = settings s"
      using True by (simp_all add: timerFired_def)
    ultimately show ?thesis using q f ni
      by (simp add: dispatch_def playbackEffect_def running_no_trigger wellPhased_active)
  next
    case False
    with active_status [OF assms(2) ni] have st: "status s = PLAYING" by simp
    show ?thesis
    proof (cases "remainingSecondsOf (nextPlayTimeRef s) now \<le> 0")
      case True
      have fr: "status ?h = PLAYING" "quotes ?h = quotes s" "settings ?h = settings s"
        "\<not> isPausedRef ?h" "\<not> isBuffering ?h" "inFlight ?h = []" "sounding ?h = []"
        "timers ?h = []" "\<not> isAudioPlaying (playbackState ?h)"
        "timeRemainingInInterval (playbackState ?h) = 0"
        "\<not> truthy (lastError (playbackState ?h))"
        using True False st c rest by (simp_all add: timerFired_def Let_def)
      have "indexInRange (dispatch (TimerFired t now) s)"
        using assms(3,4) by (rule indexInRange_dispatch)
      then have "indexInRange ?h"
        by (simp add: indexInRange_def dispatch_def playbackEffect_frame)
      then have "phaseFetching (playbackEffect ?h)"
        using fr q f by (intro effect_fetches) simp_all
      then show ?thesis using q f fr
        by (simp add: dispatch_def wellPhased_active running_def playbackEffect_frame)
    next
      case False
      have "phaseCounting ?h"
        using False \<open>\<not> isPausedRef s\<close> c rest
        by (simp add: timerFired_def Let_def phaseCounting_def)
      then have r: "running ?h" by (simp add: running_def)
      moreover have "status ?h = status s" "quotes ?h = quotes s" "settings ?h = settings s"
        using False \<open>\<not> isPausedRef s\<close> by (simp_all add: timerFired_def Let_def)
      ultimately show ?thesis using q f ni
        by (simp add: dispatch_def playbackEffect_def running_no_trigger wellPhased_active)
    qed
  qed
qed

lemma wp_dispatch:
  assumes "wellPhased s" "flagAgrees s" "indexInRange s" "enabled s e"
    "e = OnReset \<longrightarrow> inFlight s = []"
  shows "wellPhased (dispatch e s)"
proof (cases e)
  case OnStart
  then show ?thesis using assms wp_start by simp
next
  case OnPauseResume
  then show ?thesis using assms wp_pauseResume by simp
next
  case OnReset
  then show ?thesis using assms wp_reset by simp
next
  case (SpeechResolved k)
  then show ?thesis using assms wp_speechResolved by simp
next
  case (SpeechRejected k err)
  then show ?thesis using assms wp_speechRejected by simp
next
  case (SourceEnded h now)
  then show ?thesis using assms wp_sourceEnded by simp
next
  case (TimerFired t now)
  then show ?thesis using assms wp_timerFired by simp
qed (use assms wp_settings in blast)+

lemma wellPhased_run:
  assumes "orderly es initialApp"
  shows "wellPhased (run es initialApp)"
  using assms
proof (induction es rule: rev_induct)
  case Nil
  show ?case by (simp add: wellPhased_def initialApp_def)
next
  case (snoc e es)
  from snoc.prems have o: "orderly es initialApp"
    and r: "e = OnReset \<longrightarrow> inFlight (run es initialApp) = []"
    by (simp_all add: orderly_snoc)
  from snoc.IH [OF o] have w: "wellPhased (run es initialApp)" .
  show ?case
  proof (cases "enabled (run es initialApp) e")
    case True
    from wp_dispatch [OF w flagAgrees_run indexInRange_run True r]
    show ?thesis using True by (simp add: run_append fire_def)
  next
    case False
    then show ?thesis using w by (simp add: run_append fire_def)
  qed
qed

lemma handlePauseResume_paused:
  assumes "status s = PAUSED" "isPausedRef s"
  shows "status (fire OnPauseResume s) = PLAYING"
    "\<not> isPausedRef (fire OnPauseResume s)"
    "\<not> ctxSuspended (fire OnPauseResume s)"
    "currentQuoteIndex (playbackState (fire OnPauseResume s)) = currentQuoteIndex (playbackState s)"
    "quotes (fire OnPauseResume s) = quotes s"
    "truthy (lastError (playbackState s)) \<longrightarrow> lastError (playbackState (fire OnPauseResume s)) = None"
  using assms
  by (simp_all add: fire_def dispatch_def playbackEffect_frame handlePauseResume_def
      playbackEffect_def playCurrentQuote_def split: option.splits)

lemma resume_when_held:
  assumes "status s = PAUSED" "isPausedRef s" "\<not> isBuffering s"
    "\<not> isAudioPlaying (playbackState s)" "timeRemainingInInterval (playbackState s) = 0"
    "currentQuoteIndex (playbackState s) = Some i" "i < length (quotes s)"
  shows "speechRequests (fire OnPauseResume s) = speechRequests s @ [text_q (quotes s ! i)]"
    "inFlight (fire OnPauseResume s) = inFlight s @
       [\<lparr> sentText = text_q (quotes s ! i), capturedHours = frequencyHours (settings s) \<rparr>]"
    "isBuffering (fire OnPauseResume s)"
    "lastError (playbackState (fire OnPauseResume s)) = None"
  using assms
  by (simp_all add: fire_def dispatch_def handlePauseResume_def playbackEffect_def
      triggerCondition_def playCurrentQuote_def quoteAt_def)

lemma paused_error_is_held:
  assumes "wellPhased s" "status s = PAUSED" "lastError (playbackState s) \<noteq> None"
  shows "phaseHeld s"
proof -
  from assms(1,2) have "running s \<or> phaseHeld s" by (simp add: wellPhased_active)
  with assms(3) running_no_error [of s] show ?thesis by auto
qed

lemma speechResolved_paused:
  assumes "status s = PAUSED" "isPausedRef s" "k < length (inFlight s)"
  shows "fire (SpeechResolved k) s = (dropCall k s)\<lparr>isBuffering := False\<rparr>"
  using assms
  by (simp add: fire_def dispatch_def speechResolved_def dropCall_def playbackEffect_idle)

lemma handleReset_fields:
  "status (handleReset s) = IDLE"
  "quotes (handleReset s) = []"
  "\<not> isBuffering (handleReset s)"
  "audioSourceRef (handleReset s) = None"
  "intervalTimerRef (handleReset s) = None"
  "playbackState (handleReset s) = playbackState s"
  "isPausedRef (handleReset s) = isPausedRef s"
  "inFlight (handleReset s) = inFlight s"
  "speechRequests (handleReset s) = speechRequests s"
  by (simp_all add: handleReset_def stopAll_def)

lemma handleReset_source:
  "audioSourceRef s = Some h \<Longrightarrow> h \<notin> fst ` set (sounding (handleReset s))"
  by (auto simp: handleReset_def stopAll_def)

lemma handleReset_timers:
  "timersTracked s \<Longrightarrow> timers (handleReset s) = []"
  by (auto simp: handleReset_def stopAll_def timersTracked_def removeAll_only
      split: option.splits)

lemma handleStart_clears_error:
  "validQuotes u \<noteq> [] \<Longrightarrow> lastError (playbackState (handleStart u)) = None"
  by (simp add: handleStart_def)

section \<open>Starting without a usable quote\<close>

text \<open>
  Claim C8. When every string of \<open>manualQuotes\<close> is empty after trimming,
  \<open>handleStart\<close> returns at its guard: the whole component state, the collaborators
  included, is what it was. So the status stays \<open>IDLE\<close>, no quote list is installed, no
  field changes and \<open>lastError\<close> is not set. The same holds for the click on the start
  button followed by its render.
\<close>

theorem start_without_valid_quote_is_noop:
  assumes "\<forall>q \<in> set (manualQuotes (settings s)). trim q = []"
  shows "handleStart s = s \<and> fire OnStart s = s"
proof -
  have "validQuotes s = []"
    using assms by (simp add: validQuotes_def filter_empty_conv)
  then have h: "handleStart s = s" by (simp add: handleStart_def)
  have "fire OnStart s = s"
    by (simp add: fire_def dispatch_def h playbackEffect_idle)
  with h show ?thesis by simp
qed

theorem start_without_valid_quote_is_noop_witness:
  "map trim (manualQuotes
       (settings (run [QuoteCountInc, QuoteChange 1 [CHR 0x20, CHR 0x09]] initialApp))) = [[], []]
   \<and> handleStart (run [QuoteCountInc, QuoteChange 1 [CHR 0x20, CHR 0x09]] initialApp)
       = run [QuoteCountInc, QuoteChange 1 [CHR 0x20, CHR 0x09]] initialApp
   \<and> status (fire OnStart (run [QuoteCountInc, QuoteChange 1 [CHR 0x20, CHR 0x09]] initialApp))
       = IDLE"
proof -
  have m: "map trim (manualQuotes
      (settings (run [QuoteCountInc, QuoteChange 1 [CHR 0x20, CHR 0x09]] initialApp))) = [[], []]"
    by (simp add: app_defs)
  have h: "\<forall>q \<in> set (manualQuotes
      (settings (run [QuoteCountInc, QuoteChange 1 [CHR 0x20, CHR 0x09]] initialApp))). trim q = []"
    by (simp add: app_defs)
  have i: "status (run [QuoteCountInc, QuoteChange 1 [CHR 0x20, CHR 0x09]] initialApp) = IDLE"
    by (simp add: app_defs)
  show ?thesis
    using m i start_without_valid_quote_is_noop [OF h] by simp
qed

section \<open>Pause and resume without a session\<close>

text \<open>
  Claim C10. With the status \<open>IDLE\<close>, \<open>handlePauseResume\<close> fails its guard and returns
  the state it was given: status, playback state, pause flag and the suspension of the
  audio context are all unchanged. (The button that calls it is not rendered then.)
\<close>

theorem pauseResume_in_idle_is_noop:
  assumes "status s = IDLE"
  shows "handlePauseResume s = s \<and> fire OnPauseResume s = s"
  using assms by (simp add: handlePauseResume_def fire_def)

theorem pauseResume_in_idle_is_noop_witness:
  "status initialApp = IDLE \<and> handlePauseResume initialApp = initialApp
   \<and> fire OnPauseResume initialApp = initialApp"
proof -
  have h: "status initialApp = IDLE" by (simp add: initialApp_def)
  show ?thesis using h pauseResume_in_idle_is_noop [OF h] by simp
qed

section \<open>One thing at a time\<close>

text \<open>
  Claim C9. In every state the component can reach from its initial state, by any
  sequence of clicks, settled speech calls, ended sources and timer ticks,
  \<open>isBuffering\<close> (the spec's \<open>isSynthesizing\<close>) and \<open>isAudioPlaying\<close> are not both true.
  In particular, when a speech call resolves while the pause flag is clear, the audio
  starts and the state of that render shows \<open>isAudioPlaying\<close> true and \<open>isBuffering\<close>
  false.
\<close>

theorem never_synthesizing_and_playing:
  "\<not> (isBuffering (run es initialApp) \<and> isAudioPlaying (playbackState (run es initialApp)))
   \<and> (\<forall>s k. \<not> isPausedRef s \<and> k < length (inFlight s) \<longrightarrow>
          isAudioPlaying (playbackState (fire (SpeechResolved k) s))
          \<and> \<not> isBuffering (fire (SpeechResolved k) s))"
proof -
  have "oneAtATime (run es initialApp)"
  proof (rule run_invariant)
    show "oneAtATime initialApp" by (simp add: oneAtATime_def initialApp_def)
  qed (rule oneAtATime_dispatch)
  then show ?thesis using speechResolved_plays by (simp add: oneAtATime_def)
qed

theorem never_synthesizing_and_playing_witness:
  "\<not> isPausedRef (run [QuoteChange 0 ''Hello world'', OnStart] initialApp)
   \<and> 0 < length (inFlight (run [QuoteChange 0 ''Hello world'', OnStart] initialApp))
   \<and> isBuffering (run [QuoteChange 0 ''Hello world'', OnStart] initialApp)
   \<and> isAudioPlaying (playbackState (run [QuoteChange 0 ''Hello world'', OnStart, SpeechResolved 0] initialApp))
   \<and> \<not> isBuffering (run [QuoteChange 0 ''Hello world'', OnStart, SpeechResolved 0] initialApp)"
proof -
  have a: "\<not> isPausedRef (run [QuoteChange 0 ''Hello world'', OnStart] initialApp)
    \<and> 0 < length (inFlight (run [QuoteChange 0 ''Hello world'', OnStart] initialApp))
    \<and> isBuffering (run [QuoteChange 0 ''Hello world'', OnStart] initialApp)"
    by (simp add: app_defs)
  have b: "run [QuoteChange 0 ''Hello world'', OnStart, SpeechResolved 0] initialApp
    = fire (SpeechResolved 0) (run [QuoteChange 0 ''Hello world'', OnStart] initialApp)"
    by simp
  show ?thesis
    using a never_synthesizing_and_playing [of "[QuoteChange 0 ''Hello world'', OnStart, SpeechResolved 0]"]
    unfolding b by blast
qed

section \<open>The current index\<close>

text \<open>
  Claim C3. In every reachable state with a non-empty quote list, \<open>currentQuoteIndex\<close>
  is a number \<open>i\<close> with \<open>i < length quotes\<close> (never \<open>NaN\<close>). When the status is \<open>PLAYING\<close>
  and a tick finds the countdown at \<open>0\<close>, the index becomes \<open>(i + 1) mod length quotes\<close>,
  which is \<open>0\<close> after the last quote. \<open>handleStart\<close> with a usable quote sets the index
  to \<open>0\<close>.
\<close>

theorem current_index_in_range_and_cyclic:
  assumes "s = run es initialApp" and "quotes s \<noteq> []"
  shows "(\<exists>i. currentQuoteIndex (playbackState s) = Some i \<and> i < length (quotes s)
           \<and> (status s = PLAYING \<and> t \<in> set (timers s)
                \<and> remainingSecondsOf (nextPlayTimeRef s) now = 0 \<longrightarrow>
              currentQuoteIndex (playbackState (fire (TimerFired t now) s))
                = Some ((i + 1) mod length (quotes s)))
           \<and> (i = length (quotes s) - 1 \<longrightarrow> (i + 1) mod length (quotes s) = 0))
         \<and> (validQuotes u \<noteq> [] \<longrightarrow> currentQuoteIndex (playbackState (handleStart u)) = Some 0)"
proof -
  have inv: "indexInRange s" and flag: "flagAgrees s"
    using assms(1) indexInRange_run flagAgrees_run by simp_all
  from inv assms(2) have total: "totalQuotes (playbackState s) = length (quotes s)"
    by (simp add: indexInRange_def)
  with inv assms(2) obtain i where i: "currentQuoteIndex (playbackState s) = Some i"
      "i < length (quotes s)"
    by (auto simp: indexInRange_def)
  have notPaused: "\<not> isPausedRef s" if "status s = PLAYING"
    using flag that by (simp add: flagAgrees_def)
  have next_i: "nextIndex (currentQuoteIndex (playbackState s)) (totalQuotes (playbackState s))
      = Some ((i + 1) mod length (quotes s))"
    using i total assms(2) by (simp add: nextIndex_def js_rem_def)
  have adv: "status s = PLAYING \<and> t \<in> set (timers s)
                \<and> remainingSecondsOf (nextPlayTimeRef s) now = 0 \<longrightarrow>
              currentQuoteIndex (playbackState (fire (TimerFired t now) s))
                = Some ((i + 1) mod length (quotes s))"
  proof (intro impI, elim conjE)
    assume a: "status s = PLAYING" "t \<in> set (timers s)"
      "remainingSecondsOf (nextPlayTimeRef s) now = 0"
    show "currentQuoteIndex (playbackState (fire (TimerFired t now) s))
                = Some ((i + 1) mod length (quotes s))"
      using timerFired_expiry_index [OF notPaused [OF a(1)] a(2) a(3)] next_i by (rule trans)
  qed
  have wrap: "i = length (quotes s) - 1 \<longrightarrow> (i + 1) mod length (quotes s) = 0"
  proof
    assume "i = length (quotes s) - 1"
    with i(2) have "i + 1 = length (quotes s)" by simp
    then show "(i + 1) mod length (quotes s) = 0" by simp
  qed
  have start: "validQuotes u \<noteq> [] \<longrightarrow>
      currentQuoteIndex (playbackState (handleStart u)) = Some 0"
    by (simp add: handleStart_index)
  show ?thesis
    apply (intro conjI exI [of _ i])
        apply (rule i(1))
       apply (rule i(2))
      apply (rule adv)
     apply (rule wrap)
    apply (rule start)
    done
qed

theorem current_index_in_range_and_cyclic_witness:
  "quotes (run sessionTrace initialApp) \<noteq> []
   \<and> length (quotes (run sessionTrace initialApp)) = 2
   \<and> currentQuoteIndex (playbackState (run sessionTrace initialApp)) = Some 1
   \<and> status (run sessionTrace initialApp) = PLAYING
   \<and> timers (run sessionTrace initialApp) = [4]
   \<and> remainingSecondsOf (nextPlayTimeRef (run sessionTrace initialApp)) 7206000 = 0
   \<and> currentQuoteIndex (playbackState (fire (TimerFired 4 7206000)
         (run sessionTrace initialApp))) = Some 0
   \<and> validQuotes (run [QuoteChange 0 ''one''] initialApp) \<noteq> []
   \<and> currentQuoteIndex (playbackState (handleStart (run [QuoteChange 0 ''one''] initialApp)))
       = Some 0"
proof -
  have q: "quotes (run sessionTrace initialApp) \<noteq> []"
    and l: "length (quotes (run sessionTrace initialApp)) = 2"
    and c: "currentQuoteIndex (playbackState (run sessionTrace initialApp)) = Some 1"
    and p: "status (run sessionTrace initialApp) = PLAYING"
    and t: "timers (run sessionTrace initialApp) = [4]"
    and r: "remainingSecondsOf (nextPlayTimeRef (run sessionTrace initialApp)) 7206000 = 0"
    and v: "validQuotes (run [QuoteChange 0 ''one''] initialApp) \<noteq> []"
    by code_simp+
  from current_index_in_range_and_cyclic [OF refl q, of 4 7206000
      "run [QuoteChange 0 ''one''] initialApp"]
  obtain i where i: "currentQuoteIndex (playbackState (run sessionTrace initialApp)) = Some i"
    and adv: "status (run sessionTrace initialApp) = PLAYING
        \<and> 4 \<in> set (timers (run sessionTrace initialApp))
        \<and> remainingSecondsOf (nextPlayTimeRef (run sessionTrace initialApp)) 7206000 = 0 \<longrightarrow>
      currentQuoteIndex (playbackState (fire (TimerFired 4 7206000)
         (run sessionTrace initialApp))) = Some ((i + 1) mod length (quotes (run sessionTrace initialApp)))"
    and st: "validQuotes (run [QuoteChange 0 ''one''] initialApp) \<noteq> [] \<longrightarrow>
      currentQuoteIndex (playbackState (handleStart (run [QuoteChange 0 ''one''] initialApp)))
       = Some 0"
    by blast
  from i c have "i = 1" by simp
  with adv p t r l have "currentQuoteIndex (playbackState (fire (TimerFired 4 7206000)
         (run sessionTrace initialApp))) = Some 0" by simp
  with q l c p t r v st show ?thesis by simp
qed

section \<open>The countdown\<close>

text \<open>
  Claim C4. In every reachable state with status \<open>PLAYING\<close>, a tick of the active timer
  sets \<open>timeRemainingInInterval\<close> to \<open>max 0 \<lceil>(nextPlayTimeRef - now) / 1000\<rceil>\<close>, computed
  from the stored deadline and the clock. The value displayed before the tick plays no
  part: replacing it by any \<open>v\<close> gives the same result.
\<close>

theorem tick_recomputes_remaining_from_deadline:
  assumes "s = run es initialApp" and "status s = PLAYING" and "t \<in> set (timers s)"
  shows "timeRemainingInInterval (playbackState (fire (TimerFired t now) s))
           = max 0 \<lceil>real_of_int (nextPlayTimeRef s - now) / 1000\<rceil>
         \<and> timeRemainingInInterval (playbackState (fire (TimerFired t now)
              (s\<lparr>playbackState := (playbackState s)\<lparr>timeRemainingInInterval := v\<rparr>\<rparr>)))
           = max 0 \<lceil>real_of_int (nextPlayTimeRef s - now) / 1000\<rceil>"
proof -
  have "flagAgrees s" using assms(1) flagAgrees_run by simp
  with assms(2) have np: "\<not> isPausedRef s" by (simp add: flagAgrees_def)
  let ?s' = "s\<lparr>playbackState := (playbackState s)\<lparr>timeRemainingInInterval := v\<rparr>\<rparr>"
  have np': "\<not> isPausedRef ?s'" and t': "t \<in> set (timers ?s')"
    using np assms(3) by simp_all
  have r: "remainingSecondsOf (nextPlayTimeRef s) now
      = max 0 \<lceil>real_of_int (nextPlayTimeRef s - now) / 1000\<rceil>"
    by (simp only: remainingSecondsOf_def ceilSeconds_ceiling)
  from timerFired_remaining [OF np assms(3), of now] timerFired_remaining [OF np' t', of now] r
  show ?thesis by simp
qed

theorem tick_recomputes_remaining_from_deadline_witness:
  "status (run sessionTrace initialApp) = PLAYING
   \<and> timers (run sessionTrace initialApp) = [4]
   \<and> nextPlayTimeRef (run sessionTrace initialApp) = 7206000
   \<and> timeRemainingInInterval (playbackState (run sessionTrace initialApp)) = 3600
   \<and> timeRemainingInInterval (playbackState (fire (TimerFired 4 3607500)
         (run sessionTrace initialApp))) = 3599
   \<and> timeRemainingInInterval (playbackState (fire (TimerFired 4 3607500)
         ((run sessionTrace initialApp)\<lparr>playbackState :=
            (playbackState (run sessionTrace initialApp))\<lparr>timeRemainingInInterval := 17\<rparr>\<rparr>)))
       = 3599"
proof -
  have p: "status (run sessionTrace initialApp) = PLAYING"
    and t: "timers (run sessionTrace initialApp) = [4]"
    and d: "nextPlayTimeRef (run sessionTrace initialApp) = 7206000"
    and r: "timeRemainingInInterval (playbackState (run sessionTrace initialApp)) = 3600"
    by code_simp+
  have m: "4 \<in> set (timers (run sessionTrace initialApp))" using t by simp
  from tick_recomputes_remaining_from_deadline [OF refl p m, of 3607500 17] p t d r
  show ?thesis by simp
qed

text \<open>
  Claim C5. In every reachable state with status \<open>PAUSED\<close>, a tick of the active timer
  adds exactly \<open>1000\<close> ms to \<open>nextPlayTimeRef\<close> and changes nothing else, so the playback
  state and with it \<open>timeRemainingInInterval\<close> are what they were. Over any sequence of
  ticks and settling speech calls the status stays \<open>PAUSED\<close> and
  \<open>timeRemainingInInterval\<close> keeps its value: two samples taken during one pause agree.
\<close>

theorem paused_tick_pushes_deadline_only:
  assumes "s = run es initialApp" and "status s = PAUSED"
  shows "(t \<in> set (timers s) \<longrightarrow>
            fire (TimerFired t now) s = s\<lparr>nextPlayTimeRef := nextPlayTimeRef s + 1000\<rparr>)
         \<and> ((\<forall>e \<in> set bg. background e) \<longrightarrow>
              status (run bg s) = PAUSED
              \<and> timeRemainingInInterval (playbackState (run bg s))
                  = timeRemainingInInterval (playbackState s))"
proof -
  have "flagAgrees s" using assms(1) flagAgrees_run by simp
  with assms(2) have p: "isPausedRef s" by (simp add: flagAgrees_def)
  have a: "t \<in> set (timers s) \<longrightarrow>
            fire (TimerFired t now) s = s\<lparr>nextPlayTimeRef := nextPlayTimeRef s + 1000\<rparr>"
    using paused_tick [OF p, of t now] assms(2) by simp
  have b: "(\<forall>e \<in> set bg. background e) \<longrightarrow>
              status (run bg s) = PAUSED
              \<and> timeRemainingInInterval (playbackState (run bg s))
                  = timeRemainingInInterval (playbackState s)"
    using paused_background_run [OF assms(2) p, of bg] by (intro impI)
  show ?thesis by (intro conjI) (rule a, rule b)
qed

theorem paused_tick_pushes_deadline_only_witness:
  "status (run (sessionTrace @ [OnPauseResume]) initialApp) = PAUSED
   \<and> timers (run (sessionTrace @ [OnPauseResume]) initialApp) = [4]
   \<and> nextPlayTimeRef (run (sessionTrace @ [OnPauseResume]) initialApp) = 7206000
   \<and> timeRemainingInInterval (playbackState (run (sessionTrace @ [OnPauseResume]) initialApp))
       = 3600
   \<and> nextPlayTimeRef (fire (TimerFired 4 3607500) (run (sessionTrace @ [OnPauseResume]) initialApp))
       = 7207000
   \<and> playbackState (fire (TimerFired 4 3607500) (run (sessionTrace @ [OnPauseResume]) initialApp))
       = playbackState (run (sessionTrace @ [OnPauseResume]) initialApp)
   \<and> timeRemainingInInterval (playbackState
         (run [TimerFired 4 3607500, TimerFired 4 3608500, TimerFired 4 9999999]
           (run (sessionTrace @ [OnPauseResume]) initialApp))) = 3600"
proof -
  have p: "status (run (sessionTrace @ [OnPauseResume]) initialApp) = PAUSED"
    and t: "timers (run (sessionTrace @ [OnPauseResume]) initialApp) = [4]"
    and d: "nextPlayTimeRef (run (sessionTrace @ [OnPauseResume]) initialApp) = 7206000"
    and r: "timeRemainingInInterval (playbackState (run (sessionTrace @ [OnPauseResume]) initialApp))
       = 3600"
    by code_simp+
  have m: "4 \<in> set (timers (run (sessionTrace @ [OnPauseResume]) initialApp))" using t by simp
  have b: "\<forall>e \<in> set [TimerFired 4 3607500, TimerFired 4 3608500, TimerFired 4 9999999].
      background e" by simp
  from paused_tick_pushes_deadline_only [OF refl p, of 4 3607500
      "[TimerFired 4 3607500, TimerFired 4 3608500, TimerFired 4 9999999]"] m b
  have f: "fire (TimerFired 4 3607500) (run (sessionTrace @ [OnPauseResume]) initialApp)
      = (run (sessionTrace @ [OnPauseResume]) initialApp)\<lparr>nextPlayTimeRef :=
          nextPlayTimeRef (run (sessionTrace @ [OnPauseResume]) initialApp) + 1000\<rparr>"
    and g: "timeRemainingInInterval (playbackState
         (run [TimerFired 4 3607500, TimerFired 4 3608500, TimerFired 4 9999999]
           (run (sessionTrace @ [OnPauseResume]) initialApp)))
       = timeRemainingInInterval (playbackState (run (sessionTrace @ [OnPauseResume]) initialApp))"
    by blast+
  show ?thesis
    apply (intro conjI)
          apply (rule p)
         apply (rule t)
        apply (rule d)
       apply (rule r)
      apply (simp add: f d)
     apply (simp add: f)
    apply (simp only: g r)
    done
qed

section \<open>Failure of the speech service\<close>

text \<open>
  Claim C6. When a pending \<open>generateSpeech\<close> call rejects, in any state at all,
  \<open>isBuffering\<close> becomes false, \<open>lastError\<close> becomes the message of the error that
  \<open>generateSpeech\<close> threw, or \<open>Failed to generate audio\<close> when it has none (so it is never
  empty), and the status becomes \<open>PAUSED\<close> with the pause flag set. The rejection starts
  no new call, and neither does anything that follows, for as long as the user presses
  neither pause/resume nor reset: the list of requests sent to the service stays as it
  was and the status stays \<open>PAUSED\<close>.
\<close>

theorem synthesis_failure_pauses_without_retry:
  assumes "k < length (inFlight s)" and "s' = fire (SpeechRejected k err) s"
  shows "\<not> isBuffering s'
         \<and> lastError (playbackState s') = Some (errorText (generateSpeech_rethrow err))
         \<and> errorText (generateSpeech_rethrow err) \<noteq> []
         \<and> status s' = PAUSED \<and> isPausedRef s'
         \<and> speechRequests s' = speechRequests s
         \<and> (OnPauseResume \<notin> set es \<and> OnReset \<notin> set es \<longrightarrow>
              speechRequests (run es s') = speechRequests s \<and> status (run es s') = PAUSED)"
proof -
  have s': "s' = speechRejected (generateSpeech_rethrow err) (dropCall k s)"
    using assms speechRejected_fire by simp
  have a: "\<not> isBuffering s'" "status s' = PAUSED" "isPausedRef s'"
    "lastError (playbackState s') = Some (errorText (generateSpeech_rethrow err))"
    "speechRequests s' = speechRequests s"
    unfolding s' by (simp_all add: speechRejected_def dropCall_def)
  have b: "errorText (generateSpeech_rethrow err) \<noteq> []"
    by (cases "generateSpeech_rethrow err") (simp_all add: errorText_def)
  have c: "OnPauseResume \<notin> set es \<and> OnReset \<notin> set es \<longrightarrow>
              speechRequests (run es s') = speechRequests s \<and> status (run es s') = PAUSED"
    using paused_run [OF a(2), of es] a(5) by simp
  show ?thesis
    apply (intro conjI)
          apply (rule a(1))
         apply (rule a(4))
        apply (rule b)
       apply (rule a(2))
      apply (rule a(3))
     apply (rule a(5))
    apply (rule c)
    done
qed

theorem synthesis_failure_pauses_without_retry_witness:
  "0 < length (inFlight (run [QuoteChange 0 ''Hello world'', OnStart] initialApp))
   \<and> status (run [QuoteChange 0 ''Hello world'', OnStart] initialApp) = PLAYING
   \<and> speechRequests (run [QuoteChange 0 ''Hello world'', OnStart] initialApp) = [''Hello world'']
   \<and> lastError (playbackState (fire (SpeechRejected 0 (Some ''Request had invalid API key''))
        (run [QuoteChange 0 ''Hello world'', OnStart] initialApp)))
       = Some ''Invalid or missing API Key.''
   \<and> status (fire (SpeechRejected 0 (Some ''Request had invalid API key''))
        (run [QuoteChange 0 ''Hello world'', OnStart] initialApp)) = PAUSED
   \<and> \<not> isBuffering (fire (SpeechRejected 0 (Some ''Request had invalid API key''))
        (run [QuoteChange 0 ''Hello world'', OnStart] initialApp))
   \<and> speechRequests (run [TimerFired 1 0, SourceEnded 1 0, OnStart, SpeechResolved 0]
        (fire (SpeechRejected 0 (Some ''Request had invalid API key''))
          (run [QuoteChange 0 ''Hello world'', OnStart] initialApp))) = [''Hello world'']"
proof -
  have k: "0 < length (inFlight (run [QuoteChange 0 ''Hello world'', OnStart] initialApp))"
    and p: "status (run [QuoteChange 0 ''Hello world'', OnStart] initialApp) = PLAYING"
    and q: "speechRequests (run [QuoteChange 0 ''Hello world'', OnStart] initialApp)
        = [''Hello world'']"
    and e: "errorText (generateSpeech_rethrow (Some ''Request had invalid API key''))
        = ''Invalid or missing API Key.''"
    by code_simp+
  have n: "OnPauseResume \<notin> set [TimerFired 1 0, SourceEnded 1 0, OnStart, SpeechResolved 0]
      \<and> OnReset \<notin> set [TimerFired 1 0, SourceEnded 1 0, OnStart, SpeechResolved 0]"
    by simp
  from synthesis_failure_pauses_without_retry [OF k refl,
      of "Some ''Request had invalid API key''"
         "[TimerFired 1 0, SourceEnded 1 0, OnStart, SpeechResolved 0]"] n k p q e
  show ?thesis by simp
qed

section \<open>A speech result that arrives during a pause\<close>

text \<open>
  The continuation of \<open>playCurrentQuote\<close> tests the pause flag as it is when the call
  resolves. A session that was paused and resumed again while the call was pending finds
  the flag clear, and the audio is played: the call of
  \<open>toggledTwiceWhileFetchingTrace\<close> was pending while the status was \<open>PAUSED\<close>, and
  its result starts source \<open>1\<close>.
\<close>

theorem result_after_pause_and_resume_is_played:
  "status (run pausedWhileFetchingTrace initialApp) = PAUSED
   \<and> inFlight (run pausedWhileFetchingTrace initialApp)
       = [\<lparr>sentText = ''Hello world'', capturedHours = 1\<rparr>]
   \<and> status (run toggledTwiceWhileFetchingTrace initialApp) = PLAYING
   \<and> inFlight (run toggledTwiceWhileFetchingTrace initialApp)
       = [\<lparr>sentText = ''Hello world'', capturedHours = 1\<rparr>]
   \<and> speechRequests (run toggledTwiceWhileFetchingTrace initialApp) = [''Hello world'']
   \<and> isAudioPlaying (playbackState
         (fire (SpeechResolved 0) (run toggledTwiceWhileFetchingTrace initialApp)))
   \<and> sounding (fire (SpeechResolved 0) (run toggledTwiceWhileFetchingTrace initialApp))
       = [(1, 1)]
   \<and> audioSourceRef (fire (SpeechResolved 0) (run toggledTwiceWhileFetchingTrace initialApp))
       = Some 1"
  by (intro conjI; code_simp)

text \<open>
  Claim C2, for the pause that is still in force when the call resolves. In every
  reachable state with status \<open>PAUSED\<close>, a pending speech call that resolves is only
  taken out of \<open>inFlight\<close> and \<open>isBuffering\<close> is set to false: the playback state, the
  sounding sources, \<open>audioSourceRef\<close>, the deadline \<open>nextPlayTimeRef\<close>, the timers and
  the status are unchanged and no request is sent. Nothing that follows sends a request
  either, for as long as the user presses neither pause/resume nor reset. In an orderly
  trace the index is valid and pressing pause/resume next sends the request for the
  same quote again.
\<close>

theorem result_arriving_while_paused_is_discarded:
  assumes "s = run es initialApp" and "status s = PAUSED" and "k < length (inFlight s)"
  shows "fire (SpeechResolved k) s = (dropCall k s)\<lparr>isBuffering := False\<rparr>
         \<and> \<not> isBuffering (fire (SpeechResolved k) s)
         \<and> playbackState (fire (SpeechResolved k) s) = playbackState s
         \<and> sounding (fire (SpeechResolved k) s) = sounding s
         \<and> audioSourceRef (fire (SpeechResolved k) s) = audioSourceRef s
         \<and> nextPlayTimeRef (fire (SpeechResolved k) s) = nextPlayTimeRef s
         \<and> timers (fire (SpeechResolved k) s) = timers s
         \<and> intervalTimerRef (fire (SpeechResolved k) s) = intervalTimerRef s
         \<and> status (fire (SpeechResolved k) s) = PAUSED
         \<and> speechRequests (fire (SpeechResolved k) s) = speechRequests s
         \<and> (OnPauseResume \<notin> set bg \<and> OnReset \<notin> set bg \<longrightarrow>
              speechRequests (run bg (fire (SpeechResolved k) s)) = speechRequests s)
         \<and> (orderly es initialApp \<longrightarrow>
              (\<exists>i. currentQuoteIndex (playbackState s) = Some i \<and> i < length (quotes s)
                 \<and> speechRequests (fire OnPauseResume (fire (SpeechResolved k) s))
                     = speechRequests s @ [text_q (quotes s ! i)]))"
proof -
  let ?s' = "fire (SpeechResolved k) s"
  have "flagAgrees s" using assms(1) flagAgrees_run by simp
  with assms(2) have p: "isPausedRef s" by (simp add: flagAgrees_def)
  note d = speechResolved_paused [OF assms(2) p assms(3)]
  have f: "\<not> isBuffering ?s'" "playbackState ?s' = playbackState s"
    "sounding ?s' = sounding s" "audioSourceRef ?s' = audioSourceRef s"
    "nextPlayTimeRef ?s' = nextPlayTimeRef s" "timers ?s' = timers s"
    "intervalTimerRef ?s' = intervalTimerRef s" "status ?s' = PAUSED"
    "speechRequests ?s' = speechRequests s" "isPausedRef ?s'" "quotes ?s' = quotes s"
    unfolding d using assms(2) p by (simp_all add: dropCall_def)
  have b: "OnPauseResume \<notin> set bg \<and> OnReset \<notin> set bg \<longrightarrow>
              speechRequests (run bg ?s') = speechRequests s"
    using paused_run [OF f(8), of bg] f(9) by simp
  have o: "orderly es initialApp \<longrightarrow>
              (\<exists>i. currentQuoteIndex (playbackState s) = Some i \<and> i < length (quotes s)
                 \<and> speechRequests (fire OnPauseResume ?s')
                     = speechRequests s @ [text_q (quotes s ! i)])"
  proof
    assume "orderly es initialApp"
    then have w: "wellPhased s" using assms(1) wellPhased_run by simp
    with assms(2) have q: "quotes s \<noteq> []" and ph: "running s \<or> phaseHeld s"
      by (simp_all add: wellPhased_active)
    from ph assms(3) have "phaseFetching s" by (auto simp: running_def phase_defs)
    then have h: "\<not> isAudioPlaying (playbackState s)"
      "timeRemainingInInterval (playbackState s) = 0"
      by (simp_all add: phaseFetching_def)
    have "indexInRange s" using assms(1) indexInRange_run by simp
    from quoteAt_inRange [OF this q] obtain i where
      i: "currentQuoteIndex (playbackState s) = Some i" "i < length (quotes s)" by blast
    have "speechRequests (fire OnPauseResume ?s') = speechRequests ?s' @ [text_q (quotes ?s' ! i)]"
      using f h i by (intro resume_when_held(1)) simp_all
    with i f show "\<exists>i. currentQuoteIndex (playbackState s) = Some i \<and> i < length (quotes s)
                 \<and> speechRequests (fire OnPauseResume ?s')
                     = speechRequests s @ [text_q (quotes s ! i)]" by simp
  qed
  show ?thesis
    apply (intro conjI)
               apply (rule d)
              apply (rule f(1))
             apply (rule f(2))
            apply (rule f(3))
           apply (rule f(4))
          apply (rule f(5))
         apply (rule f(6))
        apply (rule f(7))
       apply (rule f(8))
      apply (rule f(9))
     apply (rule b)
    apply (rule o)
    done
qed

theorem result_arriving_while_paused_is_discarded_witness:
  "status (run pausedWhileFetchingTrace initialApp) = PAUSED
   \<and> length (inFlight (run pausedWhileFetchingTrace initialApp)) = 1
   \<and> isBuffering (run pausedWhileFetchingTrace initialApp)
   \<and> orderly pausedWhileFetchingTrace initialApp
   \<and> speechRequests (run pausedWhileFetchingTrace initialApp) = [''Hello world'']
   \<and> \<not> isBuffering (fire (SpeechResolved 0) (run pausedWhileFetchingTrace initialApp))
   \<and> sounding (fire (SpeechResolved 0) (run pausedWhileFetchingTrace initialApp)) = []
   \<and> timers (fire (SpeechResolved 0) (run pausedWhileFetchingTrace initialApp)) = []
   \<and> speechRequests (run [TimerFired 1 1000, SourceEnded 1 2000]
        (fire (SpeechResolved 0) (run pausedWhileFetchingTrace initialApp))) = [''Hello world'']
   \<and> speechRequests (fire OnPauseResume
        (fire (SpeechResolved 0) (run pausedWhileFetchingTrace initialApp)))
       = [''Hello world'', ''Hello world'']"
proof -
  have p: "status (run pausedWhileFetchingTrace initialApp) = PAUSED"
    and l: "length (inFlight (run pausedWhileFetchingTrace initialApp)) = 1"
    and b: "isBuffering (run pausedWhileFetchingTrace initialApp)"
    and o: "orderly pausedWhileFetchingTrace initialApp"
    and q: "speechRequests (run pausedWhileFetchingTrace initialApp) = [''Hello world'']"
    and c: "currentQuoteIndex (playbackState (run pausedWhileFetchingTrace initialApp)) = Some 0"
    and x: "text_q (quotes (run pausedWhileFetchingTrace initialApp) ! 0) = ''Hello world''"
    and so: "sounding (run pausedWhileFetchingTrace initialApp) = []"
    and ti: "timers (run pausedWhileFetchingTrace initialApp) = []"
    by code_simp+
  have k: "0 < length (inFlight (run pausedWhileFetchingTrace initialApp))" using l by simp
  have n: "OnPauseResume \<notin> set [TimerFired 1 1000, SourceEnded 1 2000]
      \<and> OnReset \<notin> set [TimerFired 1 1000, SourceEnded 1 2000]" by simp
  from result_arriving_while_paused_is_discarded [OF refl p k,
      of "[TimerFired 1 1000, SourceEnded 1 2000]"] n o c q x so ti
  show ?thesis using p l b by auto
qed

section \<open>Resuming after a failure\<close>

text \<open>
  In every reachable state with status \<open>PAUSED\<close> and \<open>lastError\<close> set, pressing
  pause/resume sets the status to \<open>PLAYING\<close>, clears the pause flag and \<open>lastError\<close>, and
  leaves the index and the quote list alone. In an orderly trace the session is then in
  its held phase, the effect fires, and the text of the quote at the unchanged index is
  sent to the speech service again.
\<close>

theorem resume_after_error_retries_same_quote:
  assumes "s = run es initialApp" and "status s = PAUSED"
    and "truthy (lastError (playbackState s))"
  shows "status (fire OnPauseResume s) = PLAYING
         \<and> \<not> isPausedRef (fire OnPauseResume s)
         \<and> lastError (playbackState (fire OnPauseResume s)) = None
         \<and> currentQuoteIndex (playbackState (fire OnPauseResume s))
             = currentQuoteIndex (playbackState s)
         \<and> quotes (fire OnPauseResume s) = quotes s
         \<and> (orderly es initialApp \<longrightarrow>
              (\<exists>i. currentQuoteIndex (playbackState s) = Some i \<and> i < length (quotes s)
                 \<and> speechRequests (fire OnPauseResume s)
                     = speechRequests s @ [text_q (quotes s ! i)]
                 \<and> isBuffering (fire OnPauseResume s)))"
proof -
  have "flagAgrees s" using assms(1) flagAgrees_run by simp
  with assms(2) have p: "isPausedRef s" by (simp add: flagAgrees_def)
  note r = handlePauseResume_paused [OF assms(2) p]
  have e: "lastError (playbackState (fire OnPauseResume s)) = None"
    using r(6) assms(3) by simp
  have o: "orderly es initialApp \<longrightarrow>
              (\<exists>i. currentQuoteIndex (playbackState s) = Some i \<and> i < length (quotes s)
                 \<and> speechRequests (fire OnPauseResume s)
                     = speechRequests s @ [text_q (quotes s ! i)]
                 \<and> isBuffering (fire OnPauseResume s))"
  proof
    assume "orderly es initialApp"
    then have w: "wellPhased s" using assms(1) wellPhased_run by simp
    from assms(3) have "lastError (playbackState s) \<noteq> None"
      by (cases "lastError (playbackState s)") simp_all
    from paused_error_is_held [OF w assms(2) this] have h: "\<not> isBuffering s"
      "\<not> isAudioPlaying (playbackState s)" "timeRemainingInInterval (playbackState s) = 0"
      by (simp_all add: phaseHeld_def)
    from w assms(2) have q: "quotes s \<noteq> []" by (simp add: wellPhased_active)
    have "indexInRange s" using assms(1) indexInRange_run by simp
    from quoteAt_inRange [OF this q] obtain i where
      i: "currentQuoteIndex (playbackState s) = Some i" "i < length (quotes s)" by blast
    from resume_when_held(1,3) [OF assms(2) p h i] i
    show "\<exists>i. currentQuoteIndex (playbackState s) = Some i \<and> i < length (quotes s)
                 \<and> speechRequests (fire OnPauseResume s)
                     = speechRequests s @ [text_q (quotes s ! i)]
                 \<and> isBuffering (fire OnPauseResume s)"
      by blast
  qed
  show ?thesis
    apply (intro conjI)
         apply (rule r(1))
        apply (rule r(2))
       apply (rule e)
      apply (rule r(4))
     apply (rule r(5))
    apply (rule o)
    done
qed

theorem resume_after_error_retries_same_quote_witness:
  "status (run failedTrace initialApp) = PAUSED
   \<and> lastError (playbackState (run failedTrace initialApp)) = Some ''Invalid or missing API Key.''
   \<and> orderly failedTrace initialApp
   \<and> currentQuoteIndex (playbackState (run failedTrace initialApp)) = Some 0
   \<and> speechRequests (run failedTrace initialApp) = [''Hello world'']
   \<and> status (fire OnPauseResume (run failedTrace initialApp)) = PLAYING
   \<and> lastError (playbackState (fire OnPauseResume (run failedTrace initialApp))) = None
   \<and> currentQuoteIndex (playbackState (fire OnPauseResume (run failedTrace initialApp))) = Some 0
   \<and> speechRequests (fire OnPauseResume (run failedTrace initialApp))
       = [''Hello world'', ''Hello world'']"
proof -
  have p: "status (run failedTrace initialApp) = PAUSED"
    and l: "lastError (playbackState (run failedTrace initialApp))
        = Some ''Invalid or missing API Key.''"
    and o: "orderly failedTrace initialApp"
    and c: "currentQuoteIndex (playbackState (run failedTrace initialApp)) = Some 0"
    and q: "speechRequests (run failedTrace initialApp) = [''Hello world'']"
    and x: "text_q (quotes (run failedTrace initialApp) ! 0) = ''Hello world''"
    by code_simp+
  have t: "truthy (lastError (playbackState (run failedTrace initialApp)))"
    by (simp add: l)
  from resume_after_error_retries_same_quote [OF refl p t] o c q x
  show ?thesis using p l by auto
qed

text \<open>
  Claim C7, at two traces that are not orderly. In \<open>staleFailureTrace\<close> the call that
  was pending at the reset is rejected afterwards: the \<open>catch\<close> block sets the status to
  \<open>PAUSED\<close> and \<open>lastError\<close>, with the quote list already emptied by the reset. Pressing
  pause/resume then sets \<open>PLAYING\<close> and clears \<open>lastError\<close>, but \<open>quotes[0]\<close> is
  \<open>undefined\<close> and \<open>playCurrentQuote\<close> returns without a request. In \<open>staleAudioTrace\<close>
  the old call resolves inside the new session and its audio is sounding when the new
  call is rejected: pressing pause/resume sends no request because \<open>isAudioPlaying\<close> is
  true, and the next request, after the source has ended and the hour has elapsed, is
  for the next quote.
\<close>

theorem resume_after_reset_race_sends_no_request:
  "status (run staleFailureTrace initialApp) = PAUSED
   \<and> lastError (playbackState (run staleFailureTrace initialApp)) = Some ''boom''
   \<and> currentQuoteIndex (playbackState (run staleFailureTrace initialApp)) = Some 0
   \<and> quotes (run staleFailureTrace initialApp) = []
   \<and> speechRequests (run staleFailureTrace initialApp) = [''Hello world'']
   \<and> status (fire OnPauseResume (run staleFailureTrace initialApp)) = PLAYING
   \<and> lastError (playbackState (fire OnPauseResume (run staleFailureTrace initialApp))) = None
   \<and> speechRequests (fire OnPauseResume (run staleFailureTrace initialApp)) = [''Hello world'']
   \<and> inFlight (fire OnPauseResume (run staleFailureTrace initialApp)) = []
   \<and> status (run staleAudioTrace initialApp) = PAUSED
   \<and> lastError (playbackState (run staleAudioTrace initialApp)) = Some ''boom''
   \<and> currentQuoteIndex (playbackState (run staleAudioTrace initialApp)) = Some 0
   \<and> map text_q (quotes (run staleAudioTrace initialApp)) = [''one'', ''two'']
   \<and> speechRequests (run staleAudioTrace initialApp) = [''one'', ''one'']
   \<and> status (fire OnPauseResume (run staleAudioTrace initialApp)) = PLAYING
   \<and> speechRequests (fire OnPauseResume (run staleAudioTrace initialApp)) = [''one'', ''one'']
   \<and> inFlight (fire OnPauseResume (run staleAudioTrace initialApp)) = []
   \<and> speechRequests (run [OnPauseResume, SourceEnded 1 5000, TimerFired 2 3605000]
         (run staleAudioTrace initialApp)) = [''one'', ''one'', ''two'']"
  by (intro conjI; code_simp)

section \<open>Reset\<close>

text \<open>
  \<open>handleReset\<close> does not touch the playback state, so a \<open>lastError\<close> that was set stays
  set in \<open>IDLE\<close>; and it does not touch the pause flag, which is all the continuation of
  a pending speech call looks at. After \<open>resetWhileFetchingTrace\<close> nothing sounds and no
  timer is active; when the pending call then resolves a source starts, and when that
  source ends the deadline and timer \<open>2\<close> are armed, all with the status \<open>IDLE\<close>; when
  the call is rejected instead the status becomes \<open>PAUSED\<close>.
\<close>

theorem reset_counterexample:
  "status (run resetAfterFailureTrace initialApp) = IDLE
   \<and> lastError (playbackState (run resetAfterFailureTrace initialApp)) = Some ''boom''
   \<and> status (run resetWhileFetchingTrace initialApp) = IDLE
   \<and> sounding (run resetWhileFetchingTrace initialApp) = []
   \<and> timers (run resetWhileFetchingTrace initialApp) = []
   \<and> status (run (resetWhileFetchingTrace @ [SpeechResolved 0]) initialApp) = IDLE
   \<and> isAudioPlaying (playbackState (run (resetWhileFetchingTrace @ [SpeechResolved 0]) initialApp))
   \<and> sounding (run (resetWhileFetchingTrace @ [SpeechResolved 0]) initialApp) = [(1, 1)]
   \<and> timers (run (resetWhileFetchingTrace @ [SpeechResolved 0, SourceEnded 1 5000]) initialApp)
       = [2]
   \<and> nextPlayTimeRef
        (run (resetWhileFetchingTrace @ [SpeechResolved 0, SourceEnded 1 5000]) initialApp)
       = 3605000
   \<and> status (run (resetWhileFetchingTrace @ [SpeechRejected 0 None]) initialApp) = PAUSED"
  by (intro conjI; code_simp)

text \<open>
  Claim C1, as far as \<open>handleReset\<close> goes. From every reachable state, \<open>handleReset\<close>
  leaves the status \<open>IDLE\<close>, the quote list empty and \<open>isBuffering\<close> false; the source
  held in \<open>audioSourceRef\<close> is stopped and the ref cleared; the interval timer is cleared
  and, the component never having more than the one timer it holds, no timer is active
  any more, so that a tick changes nothing. The playback state, \<open>lastError\<close> included, is
  what it was; it is the next \<open>handleStart\<close> with a usable quote that clears \<open>lastError\<close>.
  The reset button, rendered while the status is not \<open>IDLE\<close>, does exactly this.
\<close>

theorem reset_stops_source_and_timer_keeps_playback_state:
  assumes "s = run es initialApp"
  shows "status (handleReset s) = IDLE
         \<and> quotes (handleReset s) = []
         \<and> \<not> isBuffering (handleReset s)
         \<and> audioSourceRef (handleReset s) = None
         \<and> (audioSourceRef s = Some h \<longrightarrow> h \<notin> fst ` set (sounding (handleReset s)))
         \<and> intervalTimerRef (handleReset s) = None
         \<and> timers (handleReset s) = []
         \<and> fire (TimerFired t now) (handleReset s) = handleReset s
         \<and> playbackState (handleReset s) = playbackState s
         \<and> speechRequests (handleReset s) = speechRequests s
         \<and> (status s \<noteq> IDLE \<longrightarrow> fire OnReset s = handleReset s)
         \<and> (validQuotes u \<noteq> [] \<longrightarrow> lastError (playbackState (handleStart u)) = None)"
proof -
  have "timersTracked s" using assms timersTracked_run by simp
  then have t: "timers (handleReset s) = []" by (rule handleReset_timers)
  then have n: "fire (TimerFired t now) (handleReset s) = handleReset s"
    by (simp add: fire_def)
  have a: "audioSourceRef s = Some h \<longrightarrow> h \<notin> fst ` set (sounding (handleReset s))"
    using handleReset_source by blast
  have r: "status s \<noteq> IDLE \<longrightarrow> fire OnReset s = handleReset s"
    by (simp add: fire_def dispatch_def playbackEffect_idle handleReset_fields(1))
  have c: "validQuotes u \<noteq> [] \<longrightarrow> lastError (playbackState (handleStart u)) = None"
    using handleStart_clears_error by blast
  show ?thesis
    apply (intro conjI)
               apply (rule handleReset_fields(1))
              apply (rule handleReset_fields(2))
             apply (rule handleReset_fields(3))
            apply (rule handleReset_fields(4))
           apply (rule a)
          apply (rule handleReset_fields(5))
         apply (rule t)
        apply (rule n)
       apply (rule handleReset_fields(6))
      apply (rule handleReset_fields(9))
     apply (rule r)
    apply (rule c)
    done
qed

theorem reset_stops_source_and_timer_keeps_playback_state_witness:
  "status (run (sessionTrace @ [OnPauseResume]) initialApp) = PAUSED
   \<and> timers (run (sessionTrace @ [OnPauseResume]) initialApp) = [4]
   \<and> audioSourceRef (run (sessionTrace @ [OnPauseResume]) initialApp) = Some 3
   \<and> status (fire OnReset (run (sessionTrace @ [OnPauseResume]) initialApp)) = IDLE
   \<and> timers (fire OnReset (run (sessionTrace @ [OnPauseResume]) initialApp)) = []
   \<and> audioSourceRef (fire OnReset (run (sessionTrace @ [OnPauseResume]) initialApp)) = None
   \<and> fire (TimerFired 4 3607000) (fire OnReset (run (sessionTrace @ [OnPauseResume]) initialApp))
       = fire OnReset (run (sessionTrace @ [OnPauseResume]) initialApp)
   \<and> playbackState (fire OnReset (run (sessionTrace @ [OnPauseResume]) initialApp))
       = playbackState (run (sessionTrace @ [OnPauseResume]) initialApp)
   \<and> validQuotes (run resetAfterFailureTrace initialApp) \<noteq> []
   \<and> lastError (playbackState (run resetAfterFailureTrace initialApp)) = Some ''boom''
   \<and> lastError (playbackState (handleStart (run resetAfterFailureTrace initialApp))) = None"
proof -
  have p: "status (run (sessionTrace @ [OnPauseResume]) initialApp) = PAUSED"
    and t: "timers (run (sessionTrace @ [OnPauseResume]) initialApp) = [4]"
    and a: "audioSourceRef (run (sessionTrace @ [OnPauseResume]) initialApp) = Some 3"
    and v: "validQuotes (run resetAfterFailureTrace initialApp) \<noteq> []"
    and l: "lastError (playbackState (run resetAfterFailureTrace initialApp)) = Some ''boom''"
    by code_simp+
  have ni: "status (run (sessionTrace @ [OnPauseResume]) initialApp) \<noteq> IDLE"
    using p by simp
  from reset_stops_source_and_timer_keeps_playback_state [OF refl,
      of "sessionTrace @ [OnPauseResume]" 3 4 3607000 "run resetAfterFailureTrace initialApp"]
    ni v
  show ?thesis using p t a l by simp
qed

end
